theory Spec2Isabelle
  imports Complex_Main
begin

section \<open>Python floats\<close>

text \<open>
  Every tick, deadline and counter of \<^verbatim>\<open>core.py\<close> is a Python float (binary64), and
  the decisions of the state machine compare sums and differences of such floats with
  constants. A float is modelled by the rational number it denotes; \<open>+\<close> and \<open>-\<close> of the
  source are the exact operation followed by rounding to the nearest value with a 53-bit
  significand, ties to even (\<open>rnd\<close>). The exponent is not bounded: sums and differences
  of binary64 values are exact in the subnormal range, so the model agrees with binary64
  wherever the result does not overflow; infinities and NaN are not modelled
  (\<^verbatim>\<open>time.time()\<close> never returns them).
\<close>

type_synonym pyfloat = rat

definition rne :: "rat \<Rightarrow> int" where
  "rne x = (let f = \<lfloor>x\<rfloor>; d = x - of_int f in
     if d < 1 / 2 then f else if 1 / 2 < d then f + 1 else if even f then f else f + 1)"

text \<open>\<open>expo x\<close> is the binary exponent of a positive \<open>x\<close>: \<open>2 ^ expo x \<le> x < 2 ^ (expo x + 1)\<close>.\<close>

function expo :: "rat \<Rightarrow> int" where
  "expo x = (if 2 \<le> x then expo (x / 2) + 1
             else if 0 < x \<and> x < 1 then expo (x * 2) - 1
             else 0)"
  by pat_completeness auto
termination
proof (relation "measure (\<lambda>x. 2 * nat \<lceil>1 / x\<rceil> + nat \<lceil>x\<rceil>)")
  show "wf (measure (\<lambda>x::rat. 2 * nat \<lceil>1 / x\<rceil> + nat \<lceil>x\<rceil>))" by simp
next
  fix x :: rat
  assume x: "2 \<le> x"
  have a: "\<lceil>1 / x\<rceil> = 1" using x by (simp add: ceiling_eq_iff)
  have b: "\<lceil>1 / (x / 2)\<rceil> = 1" using x by (simp add: ceiling_eq_iff)
  have "x / 2 \<le> of_int (\<lceil>x\<rceil> - 1)"
  proof -
    have "x / 2 \<le> x - 1" using x by simp
    also have "\<dots> \<le> of_int \<lceil>x\<rceil> - 1" by simp
    finally show ?thesis by simp
  qed
  then have c: "\<lceil>x / 2\<rceil> \<le> \<lceil>x\<rceil> - 1" by (rule ceiling_le)
  have d: "0 < \<lceil>x\<rceil>" using x by (simp add: less_ceiling_iff)
  show "(x / 2, x) \<in> measure (\<lambda>x. 2 * nat \<lceil>1 / x\<rceil> + nat \<lceil>x\<rceil>)"
    using a b c d by simp
next
  fix x :: rat
  assume "\<not> 2 \<le> x" and x: "0 < x \<and> x < 1"
  have y: "1 < 1 / x" using x by simp
  have cy: "2 \<le> \<lceil>1 / x\<rceil>" using y by (simp add: le_ceiling_iff)
  have "1 / (x * 2) \<le> of_int \<lceil>1 / x\<rceil> / 2"
    using le_of_int_ceiling [of "1 / x"] by simp
  also have "\<dots> \<le> of_int (\<lceil>1 / x\<rceil> - 1)" using cy by simp
  finally have h: "\<lceil>1 / (x * 2)\<rceil> \<le> \<lceil>1 / x\<rceil> - 1" by (rule ceiling_le)
  have f: "\<lceil>x * 2\<rceil> \<le> 2" using x by (simp add: ceiling_le_iff)
  have g: "\<lceil>x\<rceil> = 1" using x by (simp add: ceiling_eq_iff)
  have "2 * nat \<lceil>1 / (x * 2)\<rceil> + nat \<lceil>x * 2\<rceil> < 2 * nat \<lceil>1 / x\<rceil> + nat \<lceil>x\<rceil>"
    using h f g cy by linarith
  then show "(x * 2, x) \<in> measure (\<lambda>x. 2 * nat \<lceil>1 / x\<rceil> + nat \<lceil>x\<rceil>)"
    unfolding in_measure .
qed

declare expo.simps [simp del]

definition rnd_pos :: "rat \<Rightarrow> rat" where
  "rnd_pos x = (let u = 2 powi (expo x - 52) in of_int (rne (x / u)) * u)"

definition rnd :: "rat \<Rightarrow> pyfloat" where
  "rnd x = (if x < 0 then - rnd_pos (- x) else if x = 0 then 0 else rnd_pos x)"

definition fadd :: "pyfloat \<Rightarrow> pyfloat \<Rightarrow> pyfloat" where
  "fadd x y = rnd (x + y)"

definition fsub :: "pyfloat \<Rightarrow> pyfloat \<Rightarrow> pyfloat" where
  "fsub x y = rnd (x - y)"

text \<open>The float literals of the source: a literal denotes the float nearest to its decimal.\<close>

definition lit_0_05 :: pyfloat where "lit_0_05 = rnd (5 / 100)"
definition lit_0_1 :: pyfloat where "lit_0_1 = rnd (1 / 10)"
definition lit_1_5 :: pyfloat where "lit_1_5 = rnd (15 / 10)"

text \<open>\<^verbatim>\<open>int(x)\<close> truncates towards zero; \<^verbatim>\<open>'{}'.format(n)\<close> writes an int in decimal.\<close>

definition py_int :: "pyfloat \<Rightarrow> int" where
  "py_int x = (if x < 0 then \<lceil>x\<rceil> else \<lfloor>x\<rfloor>)"

definition digit :: "nat \<Rightarrow> char" where
  "digit d = ''0123456789'' ! d"

function str_nat :: "nat \<Rightarrow> string" where
  "str_nat n = (if n < 10 then [digit n] else str_nat (n div 10) @ [digit (n mod 10)])"
  by pat_completeness auto
termination
  by (relation "measure (\<lambda>n. n)") auto

declare str_nat.simps [simp del]

definition str_int :: "int \<Rightarrow> string" where
  "str_int i = (if i < 0 then CHR ''-'' # str_nat (nat (- i)) else str_nat (nat i))"


section \<open>Exceptions\<close>

text \<open>
  A Python call either returns or raises, and in both cases the mutations made so far
  stay: an outcome carries the state reached. \<open>KeyError\<close> is the exception of
  \<^verbatim>\<open>ui.py\<close>; \<open>ExternalError\<close> stands for any exception raised inside a collaborator
  (gesture classifier, foreground masker, filter transform).
\<close>

datatype error = KeyError | ExternalError

datatype 's outcome = Done 's | Raised error 's

fun reached :: "'s outcome \<Rightarrow> 's" where
  "reached (Done s) = s"
| "reached (Raised e s) = s"

fun succeeds :: "'s outcome \<Rightarrow> bool" where
  "succeeds (Done s) = True"
| "succeeds (Raised e s) = False"

fun raises :: "error \<Rightarrow> 's outcome \<Rightarrow> bool" where
  "raises e (Done s) = False"
| "raises e (Raised e' s) = (e' = e)"

text \<open>Statements in sequence: the first that raises ends the block.\<close>

fun block :: "('s \<Rightarrow> 's outcome) list \<Rightarrow> 's \<Rightarrow> 's outcome" where
  "block [] s = Done s"
| "block (f # fs) s = (case f s of Done s' \<Rightarrow> block fs s' | Raised e s' \<Rightarrow> Raised e s')"


section \<open>The UI sink (\<^verbatim>\<open>ui.py\<close>, class \<^verbatim>\<open>UI\<close>)\<close>

text \<open>
  \<^verbatim>\<open>UI.elements\<close> maps a name to a \<^verbatim>\<open>TextWriterTest\<close> (created invisible) or a
  \<^verbatim>\<open>Progressbar\<close> (created visible, scale 0.0); \<^verbatim>\<open>UI.texts\<close> maps a name to the
  text to draw. Assigning \<^verbatim>\<open>scale\<close> on a progress bar goes through its setter, which
  replaces a negative value by 0.0; on a text element it creates a plain attribute.
  \<open>cmds\<close> is a ghost field: the commands received so far, each recorded when the call
  starts. Rendering (\<^verbatim>\<open>draw\<close>) and \<^verbatim>\<open>create_image\<close>, which fills the separate
  \<^verbatim>\<open>images\<close> dictionary, are outside the model.
\<close>

datatype element =
    TextWriterTest (position: "int \<times> int") (font_size: pyfloat) (visible: bool)
      (scale_attr: "pyfloat option")
  | Progressbar (visible: bool) (scale: pyfloat)

fun set_visible :: "bool \<Rightarrow> element \<Rightarrow> element" where
  "set_visible v (TextWriterTest p sz _ a) = TextWriterTest p sz v a"
| "set_visible v (Progressbar _ sc) = Progressbar v sc"

fun set_scale :: "pyfloat \<Rightarrow> element \<Rightarrow> element" where
  "set_scale v (TextWriterTest p sz vis _) = TextWriterTest p sz vis (Some v)"
| "set_scale v (Progressbar vis _) = Progressbar vis (if v < 0 then 0 else v)"

datatype ui_cmd =
    CreateText string "int \<times> int" pyfloat
  | CreateProgressbar string
  | SetText string string
  | SetProg string pyfloat
  | Show "string list"
  | Hide "string list"

record ui =
  elements :: "string \<rightharpoonup> element"
  texts :: "string \<rightharpoonup> string"
  cmds :: "ui_cmd list"

definition UI_init :: ui where
  "UI_init = \<lparr>elements = Map.empty, texts = Map.empty, cmds = []\<rparr>"

definition received :: "ui_cmd \<Rightarrow> ui \<Rightarrow> ui" where
  "received cmd u = u\<lparr>cmds := cmds u @ [cmd]\<rparr>"

definition create_text :: "string \<Rightarrow> int \<times> int \<Rightarrow> pyfloat \<Rightarrow> ui \<Rightarrow> ui outcome" where
  "create_text name p sz u =
     (let u = received (CreateText name p sz) u
      in Done (u\<lparr>elements := (elements u)(name \<mapsto> TextWriterTest p sz False None)\<rparr>))"

definition create_progressbar :: "string \<Rightarrow> ui \<Rightarrow> ui outcome" where
  "create_progressbar name u =
     (let u = received (CreateProgressbar name) u
      in Done (u\<lparr>elements := (elements u)(name \<mapsto> Progressbar True 0)\<rparr>))"

definition set_text :: "string \<Rightarrow> string \<Rightarrow> ui \<Rightarrow> ui outcome" where
  "set_text name text u =
     (let u = received (SetText name text) u
      in if name \<notin> dom (elements u) then Raised KeyError u
         else Done (u\<lparr>texts := (texts u)(name \<mapsto> text)\<rparr>))"

definition set_prog :: "string \<Rightarrow> pyfloat \<Rightarrow> ui \<Rightarrow> ui outcome" where
  "set_prog name v u =
     (let u = received (SetProg name v) u
      in case elements u name of
           None \<Rightarrow> Raised KeyError u
         | Some el \<Rightarrow> Done (u\<lparr>elements := (elements u)(name \<mapsto> set_scale v el)\<rparr>))"

fun each_visible :: "bool \<Rightarrow> string list \<Rightarrow> ui \<Rightarrow> ui outcome" where
  "each_visible v [] u = Done u"
| "each_visible v (name # names) u =
     (case elements u name of
        Some el \<Rightarrow> each_visible v names (u\<lparr>elements := (elements u)(name \<mapsto> set_visible v el)\<rparr>)
      | None \<Rightarrow> Raised KeyError u)"

text \<open>\<^verbatim>\<open>UI.show\<close> (\<open>show\<close> is a keyword of Isabelle) and \<^verbatim>\<open>UI.hide\<close>.\<close>

definition ui_show :: "string list \<Rightarrow> ui \<Rightarrow> ui outcome" where
  "ui_show names u = each_visible True names (received (Show names) u)"

definition hide :: "string list \<Rightarrow> ui \<Rightarrow> ui outcome" where
  "hide names u = each_visible False names (received (Hide names) u)"

text \<open>
  A caller's view of the UI as a sequence of commands: \<open>ui_exec\<close> runs one command,
  \<open>ui_run\<close> a sequence on the one UI object (which stays as a raising call left it),
  \<open>created\<close> collects the names the sequence created and \<open>addressed\<close> the names a
  command looks up.
\<close>

fun ui_exec :: "ui_cmd \<Rightarrow> ui \<Rightarrow> ui outcome" where
  "ui_exec (CreateText name p sz) u = create_text name p sz u"
| "ui_exec (CreateProgressbar name) u = create_progressbar name u"
| "ui_exec (SetText name text) u = set_text name text u"
| "ui_exec (SetProg name v) u = set_prog name v u"
| "ui_exec (Show names) u = ui_show names u"
| "ui_exec (Hide names) u = hide names u"

fun ui_run :: "ui_cmd list \<Rightarrow> ui \<Rightarrow> ui" where
  "ui_run [] u = u"
| "ui_run (cmd # rest) u = ui_run rest (reached (ui_exec cmd u))"

fun creates :: "ui_cmd \<Rightarrow> string set" where
  "creates (CreateText name p sz) = {name}"
| "creates (CreateProgressbar name) = {name}"
| "creates _ = {}"

fun created :: "ui_cmd list \<Rightarrow> string set" where
  "created [] = {}"
| "created (cmd # rest) = creates cmd \<union> created rest"

fun addressed :: "ui_cmd \<Rightarrow> string set" where
  "addressed (SetText name text) = {name}"
| "addressed (SetProg name v) = {name}"
| "addressed (Show names) = set names"
| "addressed (Hide names) = set names"
| "addressed _ = {}"


section \<open>Collaborators\<close>

text \<open>
  Modelled from the spec: \<^verbatim>\<open>FilterCarousel\<close> (the package
  \<^verbatim>\<open>smart_canvas.filters\<close> is not among the sources). The spec describes an ordered,
  cyclic list of named filters with a current position: \<open>current_name\<close> is the name at
  the position and \<open>next_filter\<close> advances it, wrapping at the end.
\<close>

record carousel =
  filter_names :: "string list"
  index :: nat

definition current_name :: "carousel \<Rightarrow> string" where
  "current_name fc =
     (if index fc < length (filter_names fc) then filter_names fc ! index fc else [])"

definition next_filter :: "carousel \<Rightarrow> carousel" where
  "next_filter fc = fc\<lparr>index := (index fc + 1) mod length (filter_names fc)\<rparr>"

text \<open>
  The gesture classifier (\<^verbatim>\<open>HandDetect.count_fingers\<close>), the foreground masker
  (\<^verbatim>\<open>ForegroundMask.apply\<close>), \<^verbatim>\<open>cv2.bitwise_and\<close> and the transform of the
  carousel's current filter are external and may keep state of their own: what they
  answer during one update is an input of that update. The first, second and fourth
  may raise. Frames and masks are values of an arbitrary type \<open>'f\<close>.
\<close>

record 'f env =
  count_fingers :: "'f \<Rightarrow> error + int"
  fg_apply :: "'f \<Rightarrow> error + 'f"
  bitwise_and :: "'f \<Rightarrow> 'f \<Rightarrow> 'f \<Rightarrow> 'f"
  current_filter :: "carousel \<Rightarrow> 'f \<Rightarrow> error + 'f"

text \<open>Ghost trace of the calls made to the collaborators, each recorded when it starts.\<close>

datatype 'f call =
    CountFingers 'f
  | FgApply 'f
  | CurrentFilter carousel 'f
  | NextFilter


section \<open>The controller and its states (\<^verbatim>\<open>core.py\<close>)\<close>

record idle =
  take_pic_cnt :: pyfloat
  change_filter_time :: pyfloat
  finger_frame_interval :: pyfloat

record filter_st =
  countdown_time :: pyfloat

record showpic =
  show_image_time :: pyfloat

datatype state = Startup | Idle idle | Filter filter_st | ShowPic showpic

text \<open>The constructors \<^verbatim>\<open>Idle()\<close>, \<^verbatim>\<open>Filter()\<close> and \<^verbatim>\<open>ShowPic()\<close>.\<close>

definition Idle_init :: idle where
  "Idle_init = \<lparr>take_pic_cnt = 0, change_filter_time = 0, finger_frame_interval = 0\<rparr>"

definition Filter_init :: filter_st where
  "Filter_init = \<lparr>countdown_time = 0\<rparr>"

definition ShowPic_init :: showpic where
  "ShowPic_init = \<lparr>show_image_time = 0\<rparr>"

text \<open>
  \<^verbatim>\<open>CanvasCore\<close>. \<open>state\<close> is the object \<^verbatim>\<open>_state\<close> refers to and \<open>state_id\<close> its
  identity: the number of state objects installed so far, so that a method running on
  an object can tell whether that object is still the active one. \<open>calls\<close> is the
  ghost trace.
\<close>

record 'f core =
  tick :: pyfloat
  out_frame :: "'f option"
  filtered_frame :: "'f option"
  filters :: carousel
  ui :: ui
  state :: state
  state_id :: nat
  stopped :: bool
  calls :: "'f call list"

definition in_ui :: "(ui \<Rightarrow> ui outcome) \<Rightarrow> 'f core \<Rightarrow> 'f core outcome" where
  "in_ui f c = (case f (ui c) of
     Done u \<Rightarrow> Done (c\<lparr>ui := u\<rparr>)
   | Raised e u \<Rightarrow> Raised e (c\<lparr>ui := u\<rparr>))"

definition called :: "'f call \<Rightarrow> 'f core \<Rightarrow> 'f core" where
  "called x c = c\<lparr>calls := calls c @ [x]\<rparr>"

subsection \<open>Entry hooks\<close>

text \<open>
  An entry hook runs on the object \<^verbatim>\<open>set_state\<close> has just installed, so \<^verbatim>\<open>self\<close>
  is \<open>state c\<close>.
\<close>

definition Startup_enter :: "pyfloat \<Rightarrow> 'f core \<Rightarrow> 'f core outcome" where
  "Startup_enter t = block
     [in_ui (create_text ''help_1'' (20, 690) 35),
      in_ui (create_text ''help_2'' (20, 650) 35),
      in_ui (create_text ''countdown'' (620, 360) 70),
      in_ui (create_text ''filter_name'' (800, 670) 35),
      in_ui (set_text ''countdown'' ''0''),
      in_ui (set_text ''help_1'' ''Show 5 fingers to take a picture!''),
      in_ui (set_text ''help_2'' ''Show 2 fingers to change filter''),
      (\<lambda>c. in_ui (set_text ''filter_name'' (''Current filter is '' @ current_name (filters c))) c),
      in_ui (create_progressbar ''bar'')]"

definition Idle_enter :: "pyfloat \<Rightarrow> 'f core \<Rightarrow> 'f core outcome" where
  "Idle_enter t = block
     [in_ui (ui_show [''help_1'', ''help_2'', ''filter_name'', ''bar'']),
      in_ui (set_prog ''bar'' 0)]"

definition Filter_enter :: "filter_st \<Rightarrow> pyfloat \<Rightarrow> 'f core \<Rightarrow> 'f core outcome" where
  "Filter_enter self t = block
     [(\<lambda>c. Done (c\<lparr>state := Filter (self\<lparr>countdown_time := fadd t 4\<rparr>)\<rparr>)),
      in_ui (hide [''help_1'', ''help_2'', ''filter_name'', ''bar'']),
      in_ui (set_text ''countdown'' ''3''),
      in_ui (ui_show [''countdown''])]"

definition ShowPic_enter :: "showpic \<Rightarrow> pyfloat \<Rightarrow> 'f core \<Rightarrow> 'f core outcome" where
  "ShowPic_enter self t = block
     [in_ui (hide [''countdown'']),
      (\<lambda>c. Done (c\<lparr>state := ShowPic (self\<lparr>show_image_time := fadd t 10\<rparr>)\<rparr>))]"

definition enter :: "pyfloat \<Rightarrow> 'f core \<Rightarrow> 'f core outcome" where
  "enter t c = (case state c of
     Startup \<Rightarrow> Startup_enter t c
   | Idle self \<Rightarrow> Idle_enter t c
   | Filter self \<Rightarrow> Filter_enter self t c
   | ShowPic self \<Rightarrow> ShowPic_enter self t c)"

text \<open>\<^verbatim>\<open>CanvasCore.set_state\<close>: install the object, then run its entry hook with \<^verbatim>\<open>self.tick\<close>.\<close>

definition set_state :: "state \<Rightarrow> 'f core \<Rightarrow> 'f core outcome" where
  "set_state st c = enter (tick c) (c\<lparr>state := st, state_id := Suc (state_id c)\<rparr>)"

subsection \<open>Update methods\<close>

text \<open>
  An update method runs on \<^verbatim>\<open>self\<close>, the object that was active when the update was
  dispatched, and on the controller. Once the method has called \<^verbatim>\<open>set_state\<close> the
  two are different objects, and the method goes on writing to the old one. So a method
  works on the pair of \<^verbatim>\<open>self\<close> and the controller; \<open>on_core\<close> runs a controller
  operation inside such a method.
\<close>

definition on_core :: "('f core \<Rightarrow> 'f core outcome) \<Rightarrow> 'a \<times> 'f core \<Rightarrow> ('a \<times> 'f core) outcome" where
  "on_core f = (\<lambda>(self, c). case f c of
     Done c' \<Rightarrow> Done (self, c')
   | Raised e c' \<Rightarrow> Raised e (self, c'))"

definition Startup_update :: "pyfloat \<Rightarrow> 'f \<Rightarrow> 'f core \<Rightarrow> 'f core outcome" where
  "Startup_update t frame c = set_state (Idle Idle_init) c"

definition update_filter_trigger :: "int \<Rightarrow> idle \<times> 'f core \<Rightarrow> (idle \<times> 'f core) outcome" where
  "update_filter_trigger finger_count = (\<lambda>(self, c).
     let self =
       (if finger_count = 5 then self\<lparr>take_pic_cnt := fadd (take_pic_cnt self) lit_0_05\<rparr>
        else if take_pic_cnt self > 0 then self\<lparr>take_pic_cnt := fsub (take_pic_cnt self) lit_0_1\<rparr>
        else self)
     in if take_pic_cnt self \<ge> 1 then on_core (set_state (Filter Filter_init)) (self, c)
        else Done (self, c))"

definition update_filter_carousel ::
    "int \<Rightarrow> pyfloat \<Rightarrow> idle \<times> 'f core \<Rightarrow> (idle \<times> 'f core) outcome" where
  "update_filter_carousel finger_count t = (\<lambda>(self, c).
     if finger_count = 2 then
       if fsub (change_filter_time self) t \<le> 0 \<and> take_pic_cnt self \<le> 0 then
         block
           [(\<lambda>(self, c). Done (self\<lparr>change_filter_time := fadd t lit_1_5\<rparr>, c)),
            (\<lambda>(self, c). Done (self, (called NextFilter c)\<lparr>filters := next_filter (filters c)\<rparr>)),
            on_core (\<lambda>c. in_ui (set_text ''filter_name''
                             (''Current filter is '' @ current_name (filters c))) c)]
           (self, c)
       else Done (self, c)
     else Done (self, c))"

definition Idle_update ::
    "'f env \<Rightarrow> pyfloat \<Rightarrow> 'f \<Rightarrow> idle \<times> 'f core \<Rightarrow> (idle \<times> 'f core) outcome" where
  "Idle_update ev t frame = (\<lambda>(self, c).
     let c = c\<lparr>out_frame := Some frame\<rparr>
     in if fsub (finger_frame_interval self) t < 0 then
          (case count_fingers ev frame of
             Inl e \<Rightarrow> Raised e (self, called (CountFingers frame) c)
           | Inr finger_count \<Rightarrow>
               block
                 [(\<lambda>(self, c). Done (self\<lparr>finger_frame_interval := fadd t lit_0_1\<rparr>, c)),
                  update_filter_trigger finger_count,
                  update_filter_carousel finger_count t,
                  (\<lambda>(self, c). on_core (in_ui (set_prog ''bar'' (take_pic_cnt self))) (self, c))]
                 (self, called (CountFingers frame) c))
        else Done (self, c))"

definition apply_filter ::
    "'f env \<Rightarrow> 'f \<Rightarrow> filter_st \<times> 'f core \<Rightarrow> (filter_st \<times> 'f core) outcome" where
  "apply_filter ev frame = (\<lambda>(self, c).
     let c = called (FgApply frame) c
     in case fg_apply ev frame of
          Inl e \<Rightarrow> Raised e (self, c)
        | Inr fg_mask \<Rightarrow>
            let masked_frame = bitwise_and ev frame frame fg_mask;
                c = called (CurrentFilter (filters c) masked_frame) c
            in case current_filter ev (filters c) masked_frame of
                 Inl e \<Rightarrow> Raised e (self, c)
               | Inr r \<Rightarrow> Done (self, c\<lparr>filtered_frame := Some r\<rparr>))"

definition Filter_update ::
    "'f env \<Rightarrow> pyfloat \<Rightarrow> 'f \<Rightarrow> filter_st \<times> 'f core \<Rightarrow> (filter_st \<times> 'f core) outcome" where
  "Filter_update ev t frame = (\<lambda>(self, c).
     if fsub (countdown_time self) t > 0 then
       block
         [on_core (in_ui (set_text ''countdown'' (str_int (py_int (fsub (countdown_time self) t))))),
          (\<lambda>(self, c). Done (self, c\<lparr>out_frame := Some frame\<rparr>))]
         (self, c)
     else
       block
         [on_core (in_ui (hide [''countdown''])),
          apply_filter ev frame,
          on_core (set_state (ShowPic ShowPic_init))]
         (self, c))"

definition ShowPic_update ::
    "pyfloat \<Rightarrow> 'f \<Rightarrow> showpic \<times> 'f core \<Rightarrow> (showpic \<times> 'f core) outcome" where
  "ShowPic_update t frame = (\<lambda>(self, c).
     let c = c\<lparr>out_frame := filtered_frame c\<rparr>
     in if fsub (show_image_time self) t < 0 then on_core (set_state (Idle Idle_init)) (self, c)
        else Done (self, c))"

text \<open>
  Dispatch of \<^verbatim>\<open>self._state.update(self.tick, frame)\<close>. When the method is over, what
  it wrote to \<^verbatim>\<open>self\<close> is in the active state exactly if \<^verbatim>\<open>self\<close> is still the
  active object (\<open>settle\<close>); otherwise the object is garbage.
\<close>

definition settle :: "('a \<Rightarrow> state) \<Rightarrow> nat \<Rightarrow> 'a \<times> 'f core \<Rightarrow> 'f core" where
  "settle K sid = (\<lambda>(self, c). if state_id c = sid then c\<lparr>state := K self\<rparr> else c)"

fun settled :: "('a \<Rightarrow> state) \<Rightarrow> nat \<Rightarrow> ('a \<times> 'f core) outcome \<Rightarrow> 'f core outcome" where
  "settled K sid (Done p) = Done (settle K sid p)"
| "settled K sid (Raised e p) = Raised e (settle K sid p)"

definition update :: "'f env \<Rightarrow> pyfloat \<Rightarrow> 'f \<Rightarrow> 'f core \<Rightarrow> 'f core outcome" where
  "update ev t frame c = (case state c of
     Startup \<Rightarrow> Startup_update t frame c
   | Idle self \<Rightarrow> settled Idle (state_id c) (Idle_update ev t frame (self, c))
   | Filter self \<Rightarrow> settled Filter (state_id c) (Filter_update ev t frame (self, c))
   | ShowPic self \<Rightarrow> settled ShowPic (state_id c) (ShowPic_update t frame (self, c)))"

text \<open>
  \<^verbatim>\<open>CanvasCore.__init__\<close> for a first controller (the \<^verbatim>\<open>UI\<close> singleton is new) and
  \<^verbatim>\<open>CanvasCore.process\<close> on the frames the queue delivers, each with the time read
  after it and the collaborators' answers for it. An exception leaves the loop, and
  with it the thread: nothing in \<^verbatim>\<open>core.py\<close> catches it.
\<close>

definition CanvasCore_init :: "pyfloat \<Rightarrow> carousel \<Rightarrow> 'f core outcome" where
  "CanvasCore_init t fc = set_state Startup
     \<lparr>tick = t, out_frame = None, filtered_frame = None, filters = fc, ui = UI_init,
      state = Startup, state_id = 0, stopped = False, calls = []\<rparr>"

fun process :: "('f env \<times> pyfloat \<times> 'f) list \<Rightarrow> 'f core \<Rightarrow> 'f core outcome" where
  "process [] c = Done c"
| "process ((ev, t, frame) # rest) c =
     (if stopped c then Done c
      else case update ev t frame (c\<lparr>tick := t\<rparr>) of
             Done c' \<Rightarrow> process rest c'
           | Raised e c' \<Rightarrow> Raised e c')"

section \<open>Notions used in the statements\<close>

text \<open>The five elements that the states address exist (\<^verbatim>\<open>Startup.enter\<close> creates them).\<close>

definition ui_ready :: "ui \<Rightarrow> bool" where
  "ui_ready u =
     ({''help_1'', ''help_2'', ''countdown'', ''filter_name'', ''bar''} \<subseteq> dom (elements u))"

text \<open>Whether \<^verbatim>\<open>UI.draw\<close> would render the element.\<close>

definition shown :: "ui \<Rightarrow> string \<Rightarrow> bool" where
  "shown u name = (case elements u name of Some el \<Rightarrow> visible el | None \<Rightarrow> False)"

text \<open>
  The capture-intent accumulator after one sample with finger count \<open>k\<close>: the first
  \<^verbatim>\<open>if\<close>/\<^verbatim>\<open>elif\<close> of \<^verbatim>\<open>update_filter_trigger\<close> (see \<open>trigger_cnt\<close> below).
\<close>

definition sampled_cnt :: "int \<Rightarrow> pyfloat \<Rightarrow> pyfloat" where
  "sampled_cnt k a = (if k = 5 then fadd a lit_0_05 else if a > 0 then fsub a lit_0_1 else a)"

text \<open>The accumulator of an active Idle state is at least -0.1.\<close>

definition cnt_bounded :: "'f core \<Rightarrow> bool" where
  "cnt_bounded c = (case state c of Idle self \<Rightarrow> - lit_0_1 \<le> take_pic_cnt self | _ \<Rightarrow> True)"

text \<open>The accumulator after \<open>n\<close> samples with finger count 5, starting from 0.0.\<close>

definition held :: "nat \<Rightarrow> pyfloat" where
  "held n = ((\<lambda>a. fadd a lit_0_05) ^^ n) 0"

text \<open>
  Every update of the sequence is sampled (the test of \<^verbatim>\<open>Idle.update\<close>, with \<open>d\<close> the
  sampling deadline before the first update) and classified as five fingers.
\<close>

fun sustained5 :: "pyfloat \<Rightarrow> ('f env \<times> pyfloat \<times> 'f) list \<Rightarrow> bool" where
  "sustained5 d [] = True"
| "sustained5 d ((ev, t, frame) # rest) =
     (fsub d t < 0 \<and> count_fingers ev frame = Inr 5 \<and> sustained5 (fadd t lit_0_1) rest)"


section \<open>A controller to run\<close>

text \<open>
  Concrete inputs on which the theorems below are evaluated: a carousel of two filters,
  collaborators that answer a fixed finger count (or raise), and frames that are numbers.
  \<open>boot_core\<close> is the controller after \<^verbatim>\<open>__init__\<close> at tick 0, \<open>idle_core\<close> after its
  first update, \<open>filter_core\<close> and \<open>showpic_core\<close> after entering Filter and ShowPic from
  there.
\<close>

definition two_filters :: carousel where
  "two_filters = \<lparr>filter_names = [''gray'', ''sepia''], index = 0\<rparr>"

definition stub_env :: "int \<Rightarrow> nat env" where
  "stub_env k = \<lparr>count_fingers = (\<lambda>frame. Inr k), fg_apply = (\<lambda>frame. Inr (frame + 100)),
      bitwise_and = (\<lambda>a b m. a + m), current_filter = (\<lambda>fc frame. Inr (frame + index fc))\<rparr>"

definition broken_env :: "nat env" where
  "broken_env = \<lparr>count_fingers = (\<lambda>frame. Inl ExternalError),
      fg_apply = (\<lambda>frame. Inl ExternalError),
      bitwise_and = (\<lambda>a b m. a + m), current_filter = (\<lambda>fc frame. Inl ExternalError)\<rparr>"

definition boot_core :: "nat core" where
  "boot_core = reached (CanvasCore_init 0 two_filters)"

definition idle_core :: "nat core" where
  "idle_core = reached (update (stub_env 0) 0 0 boot_core)"

definition filter_core :: "nat core" where
  "filter_core = reached (set_state (Filter Filter_init) idle_core)"

definition showpic_core :: "nat core" where
  "showpic_core = reached (set_state (ShowPic ShowPic_init) idle_core)"

text \<open>\<open>idle_core\<close> after one sampled update at tick 2, and after nineteen qualifying samples.\<close>

definition sampled_core :: "nat core" where
  "sampled_core = reached (update (stub_env 0) 2 0 idle_core)"

text \<open>\<open>fives t n\<close>: \<open>n\<close> frames classified as five fingers, at ticks \<open>t\<close>, \<open>t + 2\<close>, ...\<close>

fun fives :: "nat \<Rightarrow> nat \<Rightarrow> (nat env \<times> pyfloat \<times> nat) list" where
  "fives t 0 = []"
| "fives t (Suc n) = (stub_env 5, of_nat t, 0) # fives (t + 2) n"

definition nineteen_core :: "nat core" where
  "nineteen_core = reached (process (fives 2 19) idle_core)"


section \<open>Rounding\<close>

text \<open>
  Rounding is monotone and keeps the sign, so a comparison of a difference with zero in
  the source is the comparison of its operands.
\<close>

lemma rne_of_int: "rne (of_int k) = k"
  by (simp add: rne_def)

lemma rne_lower: "\<lfloor>x\<rfloor> \<le> rne x"
  by (simp add: rne_def Let_def)

lemma rne_upper: "rne x \<le> \<lfloor>x\<rfloor> + 1"
  by (simp add: rne_def Let_def)

lemma rne_mono: "x \<le> y \<Longrightarrow> rne x \<le> rne y"
proof -
  assume xy: "x \<le> y"
  have fl: "\<lfloor>x\<rfloor> \<le> \<lfloor>y\<rfloor>" using xy by (rule floor_mono)
  show ?thesis
  proof (cases "\<lfloor>x\<rfloor> = \<lfloor>y\<rfloor>")
    case True
    then show ?thesis using xy by (auto simp: rne_def Let_def)
  next
    case False
    then have "\<lfloor>x\<rfloor> + 1 \<le> \<lfloor>y\<rfloor>" using fl by simp
    then show ?thesis using rne_upper [of x] rne_lower [of y] by linarith
  qed
qed

lemma expo_bounds: "0 < x \<Longrightarrow> 2 powi expo x \<le> x \<and> x < 2 powi (expo x + 1)"
proof (induction x rule: expo.induct)
  case (1 x)
  show ?case
  proof (cases "2 \<le> x")
    case True
    then have e: "expo x = expo (x / 2) + 1" by (subst expo.simps) simp
    have "2 powi expo (x / 2) \<le> x / 2 \<and> x / 2 < 2 powi (expo (x / 2) + 1)"
      using 1(1) [OF True] True by simp
    then show ?thesis unfolding e by (simp add: power_int_add)
  next
    case F: False
    show ?thesis
    proof (cases "x < 1")
      case True
      then have e: "expo x = expo (x * 2) - 1" using F 1(3) by (subst expo.simps) simp
      have "2 powi expo (x * 2) \<le> x * 2 \<and> x * 2 < 2 powi (expo (x * 2) + 1)"
        using 1(2) [OF F] True 1(3) by simp
      then show ?thesis unfolding e by (simp add: power_int_add power_int_diff)
    next
      case False
      then have e: "expo x = 0" using F by (subst expo.simps) simp
      show ?thesis unfolding e using F False by simp
    qed
  qed
qed

lemma expo_mono: "0 < x \<Longrightarrow> x \<le> y \<Longrightarrow> expo x \<le> expo y"
proof -
  assume x: "0 < x" and xy: "x \<le> y"
  have "(2::rat) powi expo x \<le> x" using expo_bounds [OF x] by simp
  also have "\<dots> \<le> y" by (rule xy)
  also have "\<dots> < 2 powi (expo y + 1)" using expo_bounds [of y] x xy by simp
  finally have lt: "(2::rat) powi expo x < 2 powi (expo y + 1)" .
  have "\<not> expo y + 1 \<le> expo x"
  proof
    assume "expo y + 1 \<le> expo x"
    then have "(2::rat) powi (expo y + 1) \<le> 2 powi expo x"
      by (rule power_int_increasing) simp
    with lt show False by simp
  qed
  then show ?thesis by simp
qed

lemma rnd_pos_bounds:
  assumes x: "0 < x"
  shows "2 powi expo x \<le> rnd_pos x \<and> rnd_pos x \<le> 2 powi (expo x + 1)"
proof -
  define u :: rat where "u = 2 powi (expo x - 52)"
  have u: "0 < u" by (simp add: u_def)
  have lo: "2 powi expo x = 2 ^ 52 * u" 
    by (simp add: u_def power_int_diff)
  have hi: "2 powi (expo x + 1) = 2 ^ 53 * u"
    by (simp add: u_def power_int_diff power_int_add)
  have "2 ^ 52 * u \<le> x" "x < 2 ^ 53 * u"
    using expo_bounds [OF x] lo hi by simp_all
  then have q: "of_int (2 ^ 52) \<le> x / u" "x / u \<le> of_int (2 ^ 53)"
    using u by (simp_all add: field_simps)
  have "2 ^ 52 \<le> rne (x / u)" "rne (x / u) \<le> 2 ^ 53"
    using rne_mono [OF q(1)] rne_mono [OF q(2)] unfolding rne_of_int by simp_all
  then have "of_int (2 ^ 52) \<le> (of_int (rne (x / u)) :: rat)" 
       "(of_int (rne (x / u)) :: rat) \<le> of_int (2 ^ 53)"
    unfolding of_int_le_iff by simp_all
  then have b: "2 ^ 52 * u \<le> of_int (rne (x / u)) * u" "of_int (rne (x / u)) * u \<le> 2 ^ 53 * u"
    using u by simp_all
  have r: "rnd_pos x = of_int (rne (x / u)) * u"
    by (simp add: rnd_pos_def u_def Let_def)
  show ?thesis unfolding lo hi r using b by (rule conjI)
qed

lemma rnd_pos_positive: "0 < x \<Longrightarrow> 0 < rnd_pos x"
proof -
  assume x: "0 < x"
  have "(0::rat) < 2 powi expo x" by simp
  also have "\<dots> \<le> rnd_pos x" using rnd_pos_bounds [OF x] by simp
  finally show ?thesis .
qed

lemma rnd_pos_mono:
  assumes x: "0 < x" and xy: "x \<le> y"
  shows "rnd_pos x \<le> rnd_pos y"
proof (cases "expo x = expo y")
  case True
  define u :: rat where "u = 2 powi (expo y - 52)"
  have u: "0 < u" by (simp add: u_def)
  have "x / u \<le> y / u" using xy u by (simp add: divide_right_mono)
  then have "rne (x / u) \<le> rne (y / u)" by (rule rne_mono)
  then have "(of_int (rne (x / u)) :: rat) \<le> of_int (rne (y / u))" by simp
  then have "of_int (rne (x / u)) * u \<le> of_int (rne (y / u)) * u"
    using u by simp
  then show ?thesis by (simp add: rnd_pos_def Let_def True u_def)
next
  case False
  with expo_mono [OF x xy] have "expo x + 1 \<le> expo y" by simp
  then have "(2::rat) powi (expo x + 1) \<le> 2 powi expo y"
    by (rule power_int_increasing) simp
  moreover have "rnd_pos x \<le> 2 powi (expo x + 1)" using rnd_pos_bounds [OF x] by simp
  moreover have "2 powi expo y \<le> rnd_pos y" using rnd_pos_bounds [of y] x xy by simp
  ultimately show ?thesis by linarith
qed

lemma rnd_neg_iff: "rnd x < 0 \<longleftrightarrow> x < 0"
  using rnd_pos_positive [of x] rnd_pos_positive [of "- x"]
  by (auto simp: rnd_def not_less)

lemma rnd_pos_iff: "0 < rnd x \<longleftrightarrow> 0 < x"
  using rnd_pos_positive [of x] rnd_pos_positive [of "- x"]
  by (auto simp: rnd_def not_less)

lemma rnd_mono: "x \<le> y \<Longrightarrow> rnd x \<le> rnd y"
proof -
  assume xy: "x \<le> y"
  consider "0 < x" | "y < 0" | "x \<le> 0" "0 \<le> y" by linarith
  then show ?thesis
  proof cases
    case 1
    then show ?thesis using xy rnd_pos_mono [OF 1 xy] by (simp add: rnd_def)
  next
    case 2
    have "rnd_pos (- y) \<le> rnd_pos (- x)" using 2 xy by (intro rnd_pos_mono) simp_all
    then show ?thesis using 2 xy by (simp add: rnd_def)
  next
    case 3
    have "rnd x \<le> 0" using 3(1) rnd_pos_iff [of x] by simp
    moreover have "0 \<le> rnd y" using 3(2) rnd_neg_iff [of y] by simp
    ultimately show ?thesis by simp
  qed
qed

lemma rnd_nonpos_iff: "rnd x \<le> 0 \<longleftrightarrow> x \<le> 0"
  using rnd_pos_iff [of x] by (simp add: not_less [symmetric])

lemma fsub_neg_iff: "fsub x y < 0 \<longleftrightarrow> x < y"
  by (simp add: fsub_def rnd_neg_iff)

lemma fsub_pos_iff: "0 < fsub x y \<longleftrightarrow> y < x"
  by (simp add: fsub_def rnd_pos_iff)

lemma fsub_nonpos_iff: "fsub x y \<le> 0 \<longleftrightarrow> x \<le> y"
  by (simp add: fsub_def rnd_nonpos_iff)

lemma lit_0_05_val: "lit_0_05 = 3602879701896397 / 72057594037927936"
  unfolding lit_0_05_def by code_simp

lemma lit_0_1_val: "lit_0_1 = 3602879701896397 / 36028797018963968"
  unfolding lit_0_1_def by code_simp

lemma lit_1_5_val: "lit_1_5 = 3 / 2"
  unfolding lit_1_5_def by code_simp


section \<open>The UI sink: unknown names\<close>

lemma each_visible_dom:
  "dom (elements (reached (each_visible v names u))) = dom (elements u)"
  by (induction names arbitrary: u) (auto split: option.splits)

lemma each_visible_succeeds:
  "succeeds (each_visible v names u) \<longleftrightarrow> set names \<subseteq> dom (elements u)"
proof (induction names arbitrary: u)
  case Nil
  show ?case by simp
next
  case (Cons n ns)
  show ?case
  proof (cases "elements u n")
    case None
    then show ?thesis by auto
  next
    case (Some el)
    let ?u = "u\<lparr>elements := (elements u)(n \<mapsto> set_visible v el)\<rparr>"
    have d: "dom (elements ?u) = dom (elements u)" using Some by auto
    have n: "n \<in> dom (elements u)" using Some by auto
    have "succeeds (each_visible v (n # ns) u) = succeeds (each_visible v ns ?u)"
      using Some by simp
    also have "\<dots> = (set ns \<subseteq> dom (elements u))" unfolding Cons d ..
    also have "\<dots> = (set (n # ns) \<subseteq> dom (elements u))" using n by simp
    finally show ?thesis .
  qed
qed

lemma each_visible_raises:
  "raises e (each_visible v names u) \<longleftrightarrow> e = KeyError \<and> \<not> set names \<subseteq> dom (elements u)"
proof (induction names arbitrary: u)
  case Nil
  show ?case by simp
next
  case (Cons n ns)
  show ?case
  proof (cases "elements u n")
    case None
    then show ?thesis by auto
  next
    case (Some el)
    let ?u = "u\<lparr>elements := (elements u)(n \<mapsto> set_visible v el)\<rparr>"
    have d: "dom (elements ?u) = dom (elements u)" using Some by auto
    have n: "n \<in> dom (elements u)" using Some by auto
    have "raises e (each_visible v (n # ns) u) = raises e (each_visible v ns ?u)"
      using Some by simp
    also have "\<dots> = (e = KeyError \<and> \<not> set ns \<subseteq> dom (elements u))" unfolding Cons d ..
    also have "\<dots> = (e = KeyError \<and> \<not> set (n # ns) \<subseteq> dom (elements u))" using n by simp
    finally show ?thesis .
  qed
qed

lemma each_visible_Done:
  "set names \<subseteq> dom (elements u) \<Longrightarrow>
   each_visible v names u =
     Done (u\<lparr>elements := (\<lambda>n. if n \<in> set names then map_option (set_visible v) (elements u n)
                                else elements u n)\<rparr>)"
proof (induction names arbitrary: u)
  case Nil
  show ?case by simp
next
  case (Cons n ns)
  then obtain el where el: "elements u n = Some el" by auto
  let ?u = "u\<lparr>elements := (elements u)(n \<mapsto> set_visible v el)\<rparr>"
  have sub: "set ns \<subseteq> dom (elements ?u)" using Cons.prems by auto
  have idem: "set_visible v (set_visible v el) = set_visible v el" by (cases el) simp_all
  have "(\<lambda>k. if k \<in> set ns then map_option (set_visible v) (elements ?u k) else elements ?u k) =
        (\<lambda>k. if k \<in> set (n # ns) then map_option (set_visible v) (elements u k) else elements u k)"
    using el idem by (auto simp: fun_eq_iff)
  then show ?case using Cons.IH [OF sub] el by simp
qed

lemma ui_exec_dom:
  "dom (elements (reached (ui_exec cmd u))) = dom (elements u) \<union> creates cmd"
proof (cases cmd)
  case (Show ns)
  then show ?thesis using each_visible_dom [of True ns "received (Show ns) u"]
    by (simp add: ui_show_def received_def)
next
  case (Hide ns)
  then show ?thesis using each_visible_dom [of False ns "received (Hide ns) u"]
    by (simp add: hide_def received_def)
qed (auto simp: create_text_def create_progressbar_def set_text_def set_prog_def received_def
       Let_def split: option.splits)

lemma ui_run_dom: "dom (elements (ui_run cs u)) = dom (elements u) \<union> created cs"
  by (induction cs arbitrary: u) (auto simp: ui_exec_dom simp del: ui_exec.simps)

lemma ui_run_init_dom: "dom (elements (ui_run cs UI_init)) = created cs"
  by (simp add: ui_run_dom UI_init_def)

lemma set_text_succeeds: "succeeds (set_text name text u) \<longleftrightarrow> name \<in> dom (elements u)"
  by (simp add: set_text_def received_def Let_def)

lemma set_text_raises: "raises KeyError (set_text name text u) \<longleftrightarrow> name \<notin> dom (elements u)"
  by (simp add: set_text_def received_def Let_def)

lemma set_prog_succeeds: "succeeds (set_prog name v u) \<longleftrightarrow> name \<in> dom (elements u)"
  by (auto simp: set_prog_def received_def Let_def split: option.splits)

lemma set_prog_raises: "raises KeyError (set_prog name v u) \<longleftrightarrow> name \<notin> dom (elements u)"
  by (auto simp: set_prog_def received_def Let_def split: option.splits)

lemma ui_show_succeeds: "succeeds (ui_show names u) \<longleftrightarrow> set names \<subseteq> dom (elements u)"
  by (simp add: ui_show_def each_visible_succeeds received_def)

lemma ui_show_raises: "raises KeyError (ui_show names u) \<longleftrightarrow> \<not> set names \<subseteq> dom (elements u)"
  by (simp add: ui_show_def each_visible_raises received_def)

lemma hide_succeeds: "succeeds (hide names u) \<longleftrightarrow> set names \<subseteq> dom (elements u)"
  by (simp add: hide_def each_visible_succeeds received_def)

lemma hide_raises: "raises KeyError (hide names u) \<longleftrightarrow> \<not> set names \<subseteq> dom (elements u)"
  by (simp add: hide_def each_visible_raises received_def)

text \<open>
  C8. On the UI reached from a new \<^verbatim>\<open>UI\<close> by any sequence of commands, \<^verbatim>\<open>set_text\<close>
  and \<^verbatim>\<open>set_prog\<close> return normally if the name they address was created
  (\<^verbatim>\<open>create_text\<close>, \<^verbatim>\<open>create_progressbar\<close>) and raise \<^verbatim>\<open>KeyError\<close> if it never
  was; \<^verbatim>\<open>show\<close> and \<^verbatim>\<open>hide\<close> return normally if every name they are given was
  created and raise \<^verbatim>\<open>KeyError\<close> if one of them never was. No call with an unknown
  name returns normally.
\<close>

theorem ui_unknown_name_raises:
  "(succeeds (set_text name text (ui_run cs UI_init)) \<longleftrightarrow> name \<in> created cs) \<and>
   (raises KeyError (set_text name text (ui_run cs UI_init)) \<longleftrightarrow> name \<notin> created cs) \<and>
   (succeeds (set_prog name v (ui_run cs UI_init)) \<longleftrightarrow> name \<in> created cs) \<and>
   (raises KeyError (set_prog name v (ui_run cs UI_init)) \<longleftrightarrow> name \<notin> created cs) \<and>
   (succeeds (ui_show names (ui_run cs UI_init)) \<longleftrightarrow> set names \<subseteq> created cs) \<and>
   (raises KeyError (ui_show names (ui_run cs UI_init)) \<longleftrightarrow> \<not> set names \<subseteq> created cs) \<and>
   (succeeds (hide names (ui_run cs UI_init)) \<longleftrightarrow> set names \<subseteq> created cs) \<and>
   (raises KeyError (hide names (ui_run cs UI_init)) \<longleftrightarrow> \<not> set names \<subseteq> created cs)"
  unfolding set_text_succeeds set_text_raises set_prog_succeeds set_prog_raises
    ui_show_succeeds ui_show_raises hide_succeeds hide_raises ui_run_init_dom
  by simp


section \<open>Commands of the controller\<close>

subsection \<open>The UI after a sequence of commands\<close>

lemma each_visible_cmds: "cmds (reached (each_visible v ns u)) = cmds u"
  by (induction ns arbitrary: u) (auto split: option.splits)

lemma each_visible_texts: "texts (reached (each_visible v ns u)) = texts u"
  by (induction ns arbitrary: u) (auto split: option.splits)

lemma cmds_ui_exec: "cmds (reached (ui_exec cmd u)) = cmds u @ [cmd]"
  by (cases cmd)
     (simp_all add: create_text_def create_progressbar_def set_text_def set_prog_def
        ui_show_def hide_def received_def Let_def each_visible_cmds split: option.splits)

lemma ui_run_append: "ui_run (cs @ cs') u = ui_run cs' (ui_run cs u)"
  by (induction cs arbitrary: u) simp_all

lemma cmds_ui_run: "cmds (ui_run cs u) = cmds u @ cs"
  by (induction cs arbitrary: u) (simp_all add: cmds_ui_exec del: ui_exec.simps)

lemma ui_ready_ui_run: "ui_ready u \<Longrightarrow> ui_ready (ui_run cs u)"
  by (auto simp: ui_ready_def ui_run_dom)

lemma texts_set_text:
  "name \<in> dom (elements u) \<Longrightarrow> texts (reached (set_text name text u)) = (texts u)(name \<mapsto> text)"
  by (simp add: set_text_def received_def Let_def)

lemma texts_set_prog: "texts (reached (set_prog name v u)) = texts u"
  by (simp add: set_prog_def received_def Let_def split: option.splits)

lemma texts_ui_show: "texts (reached (ui_show ns u)) = texts u"
  by (simp add: ui_show_def received_def each_visible_texts)

lemma texts_hide: "texts (reached (hide ns u)) = texts u"
  by (simp add: hide_def received_def each_visible_texts)

lemma shown_each_visible:
  "set ns \<subseteq> dom (elements u) \<Longrightarrow>
   shown (reached (each_visible v ns u)) name = (if name \<in> set ns then v else shown u name)"
proof -
  assume sub: "set ns \<subseteq> dom (elements u)"
  have vis: "visible (set_visible v el) = v" for el by (cases el) simp_all
  show ?thesis
    unfolding each_visible_Done [OF sub] using sub
    by (auto simp: shown_def vis split: option.splits)
qed

lemma shown_hide:
  "set ns \<subseteq> dom (elements u) \<Longrightarrow>
   shown (reached (hide ns u)) name = (if name \<in> set ns then False else shown u name)"
  using shown_each_visible [of ns "received (Hide ns) u" False name]
  by (simp add: hide_def received_def shown_def)

lemma shown_ui_show:
  "set ns \<subseteq> dom (elements u) \<Longrightarrow>
   shown (reached (ui_show ns u)) name = (if name \<in> set ns then True else shown u name)"
  using shown_each_visible [of ns "received (Show ns) u" True name]
  by (simp add: ui_show_def received_def shown_def)

lemma shown_set_prog: "shown (reached (set_prog n v u)) name = shown u name"
proof -
  have vis: "visible (set_scale v el) = visible el" for el by (cases el) simp_all
  show ?thesis
    by (auto simp: set_prog_def received_def Let_def shown_def vis split: option.splits)
qed

lemma shown_set_text: "shown (reached (set_text n text u)) name = shown u name"
  by (simp add: set_text_def received_def Let_def shown_def)

subsection \<open>UI commands issued by the controller\<close>

lemma in_ui_succeeds:
  "succeeds (f (ui c)) \<Longrightarrow> in_ui f c = Done (c\<lparr>ui := reached (f (ui c))\<rparr>)"
  by (cases "f (ui c)") (simp_all add: in_ui_def)

lemma in_ui_create_text:
  "in_ui (create_text name p sz) c = Done (c\<lparr>ui := ui_run [CreateText name p sz] (ui c)\<rparr>)"
  by (simp add: in_ui_succeeds create_text_def Let_def)

lemma in_ui_create_progressbar:
  "in_ui (create_progressbar name) c = Done (c\<lparr>ui := ui_run [CreateProgressbar name] (ui c)\<rparr>)"
  by (simp add: in_ui_succeeds create_progressbar_def Let_def)

lemma in_ui_set_text:
  "name \<in> dom (elements (ui c)) \<Longrightarrow>
   in_ui (set_text name text) c = Done (c\<lparr>ui := ui_run [SetText name text] (ui c)\<rparr>)"
  by (simp add: in_ui_succeeds set_text_succeeds)

lemma in_ui_set_prog:
  "name \<in> dom (elements (ui c)) \<Longrightarrow>
   in_ui (set_prog name v) c = Done (c\<lparr>ui := ui_run [SetProg name v] (ui c)\<rparr>)"
  by (simp add: in_ui_succeeds set_prog_succeeds)

lemma in_ui_show:
  "set ns \<subseteq> dom (elements (ui c)) \<Longrightarrow>
   in_ui (ui_show ns) c = Done (c\<lparr>ui := ui_run [Show ns] (ui c)\<rparr>)"
  by (simp add: in_ui_succeeds ui_show_succeeds)

lemma in_ui_hide:
  "set ns \<subseteq> dom (elements (ui c)) \<Longrightarrow>
   in_ui (hide ns) c = Done (c\<lparr>ui := ui_run [Hide ns] (ui c)\<rparr>)"
  by (simp add: in_ui_succeeds hide_succeeds)

lemmas in_ui_simps = in_ui_create_text in_ui_create_progressbar in_ui_set_text in_ui_set_prog
  in_ui_show in_ui_hide

lemma ui_run_ui_run: "ui_run cs' (ui_run cs u) = ui_run (cs @ cs') u"
  by (simp add: ui_run_append)

lemma ui_readyD:
  assumes "ui_ready u"
  shows "''help_1'' \<in> dom (elements u)" "''help_2'' \<in> dom (elements u)"
    "''countdown'' \<in> dom (elements u)" "''filter_name'' \<in> dom (elements u)"
    "''bar'' \<in> dom (elements u)"
  using assms by (simp_all add: ui_ready_def)

subsection \<open>Entry hooks\<close>

lemma Startup_enter_Done:
  "Startup_enter t c = Done (c\<lparr>ui := ui_run
     [CreateText ''help_1'' (20, 690) 35, CreateText ''help_2'' (20, 650) 35,
      CreateText ''countdown'' (620, 360) 70, CreateText ''filter_name'' (800, 670) 35,
      SetText ''countdown'' ''0'', SetText ''help_1'' ''Show 5 fingers to take a picture!'',
      SetText ''help_2'' ''Show 2 fingers to change filter'',
      SetText ''filter_name'' (''Current filter is '' @ current_name (filters c)),
      CreateProgressbar ''bar''] (ui c)\<rparr>)"
  unfolding Startup_enter_def
  by (simp add: in_ui_simps ui_run_dom ui_run_ui_run del: ui_run.simps)

lemma Idle_enter_Done:
  "ui_ready (ui c) \<Longrightarrow>
   Idle_enter t c = Done (c\<lparr>ui := ui_run
     [Show [''help_1'', ''help_2'', ''filter_name'', ''bar''], SetProg ''bar'' 0] (ui c)\<rparr>)"
  unfolding Idle_enter_def
  by (simp add: in_ui_simps ui_run_dom ui_run_ui_run ui_readyD del: ui_run.simps)

lemma Filter_enter_Done:
  "ui_ready (ui c) \<Longrightarrow>
   Filter_enter self t c = Done (c\<lparr>state := Filter (self\<lparr>countdown_time := fadd t 4\<rparr>),
     ui := ui_run [Hide [''help_1'', ''help_2'', ''filter_name'', ''bar''],
                   SetText ''countdown'' ''3'', Show [''countdown'']] (ui c)\<rparr>)"
  unfolding Filter_enter_def
  by (simp add: in_ui_simps ui_run_dom ui_run_ui_run ui_readyD del: ui_run.simps)

lemma ShowPic_enter_Done:
  "ui_ready (ui c) \<Longrightarrow>
   ShowPic_enter self t c = Done (c\<lparr>state := ShowPic (self\<lparr>show_image_time := fadd t 10\<rparr>),
     ui := ui_run [Hide [''countdown'']] (ui c)\<rparr>)"
  unfolding ShowPic_enter_def
  by (simp add: in_ui_simps ui_run_dom ui_run_ui_run ui_readyD del: ui_run.simps)

lemma set_state_Idle:
  "ui_ready (ui c) \<Longrightarrow>
   set_state (Idle Idle_init) c = Done (c\<lparr>state := Idle Idle_init, state_id := Suc (state_id c),
     ui := ui_run [Show [''help_1'', ''help_2'', ''filter_name'', ''bar''], SetProg ''bar'' 0] (ui c)\<rparr>)"
  by (simp add: set_state_def enter_def Idle_enter_Done)

lemma set_state_Filter:
  "ui_ready (ui c) \<Longrightarrow>
   set_state (Filter Filter_init) c =
     Done (c\<lparr>state := Filter \<lparr>countdown_time = fadd (tick c) 4\<rparr>, state_id := Suc (state_id c),
       ui := ui_run [Hide [''help_1'', ''help_2'', ''filter_name'', ''bar''],
                     SetText ''countdown'' ''3'', Show [''countdown'']] (ui c)\<rparr>)"
  by (simp add: set_state_def enter_def Filter_enter_Done Filter_init_def)

lemma set_state_ShowPic:
  "ui_ready (ui c) \<Longrightarrow>
   set_state (ShowPic ShowPic_init) c =
     Done (c\<lparr>state := ShowPic \<lparr>show_image_time = fadd (tick c) 10\<rparr>, state_id := Suc (state_id c),
       ui := ui_run [Hide [''countdown'']] (ui c)\<rparr>)"
  by (simp add: set_state_def enter_def ShowPic_enter_Done ShowPic_init_def)

subsection \<open>One update, case by case\<close>

lemma trigger_cnt:
  "update_filter_trigger k (self, c) =
     (if 1 \<le> sampled_cnt k (take_pic_cnt self)
      then on_core (set_state (Filter Filter_init))
             (self\<lparr>take_pic_cnt := sampled_cnt k (take_pic_cnt self)\<rparr>, c)
      else Done (self\<lparr>take_pic_cnt := sampled_cnt k (take_pic_cnt self)\<rparr>, c))"
  by (simp add: update_filter_trigger_def sampled_cnt_def Let_def)

lemma Startup_step:
  "state c = Startup \<Longrightarrow> update ev t frame c = set_state (Idle Idle_init) c"
  by (simp add: update_def Startup_update_def)

lemma Idle_not_sampled:
  assumes "state c = Idle self" and "\<not> finger_frame_interval self < t"
  shows "update ev t frame c = Done (c\<lparr>out_frame := Some frame\<rparr>)"
  using assms
  by (auto simp add: update_def Idle_update_def fsub_neg_iff settle_def Let_def
      intro!: core.equality)

lemma Idle_classifier_fails:
  assumes "state c = Idle self" and "finger_frame_interval self < t"
    and "count_fingers ev frame = Inl e"
  shows "update ev t frame c =
     Raised e (c\<lparr>out_frame := Some frame, calls := calls c @ [CountFingers frame]\<rparr>)"
  using assms
  by (auto simp add: update_def Idle_update_def fsub_neg_iff settle_def called_def Let_def
      intro!: core.equality)

lemma Idle_sampled_trigger:
  assumes "state c = Idle self" and "finger_frame_interval self < t"
    and "count_fingers ev frame = Inr k" and "ui_ready (ui c)"
    and "1 \<le> sampled_cnt k (take_pic_cnt self)"
  shows "update ev t frame c =
     Done (c\<lparr>out_frame := Some frame, calls := calls c @ [CountFingers frame],
            state := Filter \<lparr>countdown_time = fadd (tick c) 4\<rparr>, state_id := Suc (state_id c),
            ui := ui_run [Hide [''help_1'', ''help_2'', ''filter_name'', ''bar''],
                          SetText ''countdown'' ''3'', Show [''countdown''],
                          SetProg ''bar'' (sampled_cnt k (take_pic_cnt self))] (ui c)\<rparr>)"
proof -
  have pos: "\<not> sampled_cnt k (take_pic_cnt self) \<le> 0" using assms(5) by simp
  have carousel: "update_filter_carousel k t (self', c') = Done (self', c')"
    if "take_pic_cnt self' = sampled_cnt k (take_pic_cnt self)" for self' and c' :: "'a core"
    using that pos by (cases "k = 2") (simp_all add: update_filter_carousel_def)
  show ?thesis
    using assms
    by (simp add: update_def Idle_update_def fsub_neg_iff settle_def called_def trigger_cnt
        on_core_def set_state_Filter carousel in_ui_simps ui_run_dom
        ui_run_ui_run ui_readyD Let_def del: ui_run.simps)
qed

lemma Idle_sampled_rotate:
  assumes "state c = Idle self" and "finger_frame_interval self < t"
    and "count_fingers ev frame = Inr k" and "ui_ready (ui c)"
    and "\<not> 1 \<le> sampled_cnt k (take_pic_cnt self)"
    and "k = 2" and "change_filter_time self \<le> t" and "sampled_cnt k (take_pic_cnt self) \<le> 0"
  shows "update ev t frame c =
     Done (c\<lparr>out_frame := Some frame, calls := calls c @ [CountFingers frame, NextFilter],
            filters := next_filter (filters c),
            state := Idle \<lparr>take_pic_cnt = sampled_cnt k (take_pic_cnt self),
                           change_filter_time = fadd t lit_1_5,
                           finger_frame_interval = fadd t lit_0_1\<rparr>,
            ui := ui_run [SetText ''filter_name''
                            (''Current filter is '' @ current_name (next_filter (filters c))),
                          SetProg ''bar'' (sampled_cnt k (take_pic_cnt self))] (ui c)\<rparr>)"
  using assms
  by (simp add: update_def Idle_update_def fsub_neg_iff fsub_nonpos_iff settle_def called_def
      trigger_cnt on_core_def update_filter_carousel_def in_ui_simps ui_run_dom
      ui_run_ui_run ui_readyD del: ui_run.simps)

lemma Idle_sampled_plain:
  assumes "state c = Idle self" and "finger_frame_interval self < t"
    and "count_fingers ev frame = Inr k" and "ui_ready (ui c)"
    and "\<not> 1 \<le> sampled_cnt k (take_pic_cnt self)"
    and "\<not> (k = 2 \<and> change_filter_time self \<le> t \<and> sampled_cnt k (take_pic_cnt self) \<le> 0)"
  shows "update ev t frame c =
     Done (c\<lparr>out_frame := Some frame, calls := calls c @ [CountFingers frame],
            state := Idle (self\<lparr>take_pic_cnt := sampled_cnt k (take_pic_cnt self),
                                finger_frame_interval := fadd t lit_0_1\<rparr>),
            ui := ui_run [SetProg ''bar'' (sampled_cnt k (take_pic_cnt self))] (ui c)\<rparr>)"
  using assms
  by (auto simp add: update_def Idle_update_def fsub_neg_iff fsub_nonpos_iff settle_def called_def
      trigger_cnt on_core_def update_filter_carousel_def in_ui_simps ui_run_dom
      ui_run_ui_run ui_readyD Let_def simp del: ui_run.simps)

lemma Filter_counting:
  assumes "state c = Filter self" and "t < countdown_time self" and "ui_ready (ui c)"
  shows "update ev t frame c =
     Done (c\<lparr>out_frame := Some frame,
            ui := ui_run [SetText ''countdown'' (str_int (py_int (fsub (countdown_time self) t)))]
                    (ui c)\<rparr>)"
  using assms
  by (auto simp add: update_def Filter_update_def fsub_pos_iff settle_def on_core_def
      in_ui_simps ui_readyD intro!: core.equality simp del: ui_run.simps)

lemma Filter_masker_fails:
  assumes "state c = Filter self" and "\<not> t < countdown_time self" and "ui_ready (ui c)"
    and "fg_apply ev frame = Inl e"
  shows "update ev t frame c =
     Raised e (c\<lparr>calls := calls c @ [FgApply frame], ui := ui_run [Hide [''countdown'']] (ui c)\<rparr>)"
  using assms
  by (auto simp add: update_def Filter_update_def fsub_pos_iff settle_def on_core_def
      apply_filter_def called_def Let_def in_ui_simps ui_readyD
      intro!: core.equality simp del: ui_run.simps)

lemma Filter_transform_fails:
  assumes "state c = Filter self" and "\<not> t < countdown_time self" and "ui_ready (ui c)"
    and "fg_apply ev frame = Inr fg_mask"
    and "current_filter ev (filters c) (bitwise_and ev frame frame fg_mask) = Inl e"
  shows "update ev t frame c =
     Raised e (c\<lparr>calls := calls c @
                    [FgApply frame, CurrentFilter (filters c) (bitwise_and ev frame frame fg_mask)],
                 ui := ui_run [Hide [''countdown'']] (ui c)\<rparr>)"
  using assms
  by (auto simp add: update_def Filter_update_def fsub_pos_iff settle_def on_core_def
      apply_filter_def called_def Let_def in_ui_simps ui_readyD
      intro!: core.equality simp del: ui_run.simps)

lemma Filter_expired:
  assumes "state c = Filter self" and "\<not> t < countdown_time self" and "ui_ready (ui c)"
    and "fg_apply ev frame = Inr fg_mask"
    and "current_filter ev (filters c) (bitwise_and ev frame frame fg_mask) = Inr r"
  shows "update ev t frame c =
     Done (c\<lparr>filtered_frame := Some r,
            calls := calls c @
              [FgApply frame, CurrentFilter (filters c) (bitwise_and ev frame frame fg_mask)],
            state := ShowPic \<lparr>show_image_time = fadd (tick c) 10\<rparr>,
            state_id := Suc (state_id c),
            ui := ui_run [Hide [''countdown''], Hide [''countdown'']] (ui c)\<rparr>)"
  using assms
  by (simp add: update_def Filter_update_def fsub_pos_iff settle_def on_core_def
      apply_filter_def called_def Let_def in_ui_simps ui_readyD set_state_ShowPic
      ui_ready_ui_run ui_run_ui_run del: ui_run.simps)

lemma ShowPic_showing:
  assumes "state c = ShowPic self" and "\<not> show_image_time self < t"
  shows "update ev t frame c = Done (c\<lparr>out_frame := filtered_frame c\<rparr>)"
  using assms
  by (auto simp add: update_def ShowPic_update_def fsub_neg_iff settle_def Let_def
      intro!: core.equality)

lemma ShowPic_over:
  assumes "state c = ShowPic self" and "show_image_time self < t" and "ui_ready (ui c)"
  shows "update ev t frame c =
     Done (c\<lparr>out_frame := filtered_frame c, state := Idle Idle_init,
            state_id := Suc (state_id c),
            ui := ui_run [Show [''help_1'', ''help_2'', ''filter_name'', ''bar''],
                          SetProg ''bar'' 0] (ui c)\<rparr>)"
  using assms
  by (simp add: update_def ShowPic_update_def fsub_neg_iff settle_def Let_def on_core_def
      set_state_Idle)

lemma update_cases [consumes 1, case_names starting waiting classifier_fails triggering rotating sampling counting masker_fails transform_fails expiring showing returning]:
  assumes ready: "ui_ready (ui c)"
  obtains
    (starting) "state c = Startup"
      "update ev t frame c =
         Done (c\<lparr>state := Idle Idle_init, state_id := Suc (state_id c),
           ui := ui_run [Show [''help_1'', ''help_2'', ''filter_name'', ''bar''],
                         SetProg ''bar'' 0] (ui c)\<rparr>)"
  | (waiting) self where "state c = Idle self" "\<not> finger_frame_interval self < t"
      "update ev t frame c = Done (c\<lparr>out_frame := Some frame\<rparr>)"
  | (classifier_fails) self e where "state c = Idle self" "finger_frame_interval self < t"
      "count_fingers ev frame = Inl e"
      "update ev t frame c =
         Raised e (c\<lparr>out_frame := Some frame, calls := calls c @ [CountFingers frame]\<rparr>)"
  | (triggering) self k where "state c = Idle self" "finger_frame_interval self < t"
      "count_fingers ev frame = Inr k" "1 \<le> sampled_cnt k (take_pic_cnt self)"
      "update ev t frame c =
         Done (c\<lparr>out_frame := Some frame, calls := calls c @ [CountFingers frame],
            state := Filter \<lparr>countdown_time = fadd (tick c) 4\<rparr>, state_id := Suc (state_id c),
            ui := ui_run [Hide [''help_1'', ''help_2'', ''filter_name'', ''bar''],
                          SetText ''countdown'' ''3'', Show [''countdown''],
                          SetProg ''bar'' (sampled_cnt k (take_pic_cnt self))] (ui c)\<rparr>)"
  | (rotating) self k where "state c = Idle self" "finger_frame_interval self < t"
      "count_fingers ev frame = Inr k" "\<not> 1 \<le> sampled_cnt k (take_pic_cnt self)"
      "k = 2" "change_filter_time self \<le> t" "sampled_cnt k (take_pic_cnt self) \<le> 0"
      "update ev t frame c =
         Done (c\<lparr>out_frame := Some frame, calls := calls c @ [CountFingers frame, NextFilter],
            filters := next_filter (filters c),
            state := Idle \<lparr>take_pic_cnt = sampled_cnt k (take_pic_cnt self),
                           change_filter_time = fadd t lit_1_5,
                           finger_frame_interval = fadd t lit_0_1\<rparr>,
            ui := ui_run [SetText ''filter_name''
                            (''Current filter is '' @ current_name (next_filter (filters c))),
                          SetProg ''bar'' (sampled_cnt k (take_pic_cnt self))] (ui c)\<rparr>)"
  | (sampling) self k where "state c = Idle self" "finger_frame_interval self < t"
      "count_fingers ev frame = Inr k" "\<not> 1 \<le> sampled_cnt k (take_pic_cnt self)"
      "\<not> (k = 2 \<and> change_filter_time self \<le> t \<and> sampled_cnt k (take_pic_cnt self) \<le> 0)"
      "update ev t frame c =
         Done (c\<lparr>out_frame := Some frame, calls := calls c @ [CountFingers frame],
            state := Idle (self\<lparr>take_pic_cnt := sampled_cnt k (take_pic_cnt self),
                                finger_frame_interval := fadd t lit_0_1\<rparr>),
            ui := ui_run [SetProg ''bar'' (sampled_cnt k (take_pic_cnt self))] (ui c)\<rparr>)"
  | (counting) self where "state c = Filter self" "t < countdown_time self"
      "update ev t frame c =
         Done (c\<lparr>out_frame := Some frame,
            ui := ui_run [SetText ''countdown'' (str_int (py_int (fsub (countdown_time self) t)))]
                    (ui c)\<rparr>)"
  | (masker_fails) self e where "state c = Filter self" "\<not> t < countdown_time self"
      "fg_apply ev frame = Inl e"
      "update ev t frame c =
         Raised e (c\<lparr>calls := calls c @ [FgApply frame],
                     ui := ui_run [Hide [''countdown'']] (ui c)\<rparr>)"
  | (transform_fails) self fg_mask e where "state c = Filter self"
      "\<not> t < countdown_time self" "fg_apply ev frame = Inr fg_mask"
      "current_filter ev (filters c) (bitwise_and ev frame frame fg_mask) = Inl e"
      "update ev t frame c =
         Raised e (c\<lparr>calls := calls c @
                    [FgApply frame, CurrentFilter (filters c) (bitwise_and ev frame frame fg_mask)],
                 ui := ui_run [Hide [''countdown'']] (ui c)\<rparr>)"
  | (expiring) self fg_mask r where "state c = Filter self"
      "\<not> t < countdown_time self" "fg_apply ev frame = Inr fg_mask"
      "current_filter ev (filters c) (bitwise_and ev frame frame fg_mask) = Inr r"
      "update ev t frame c =
         Done (c\<lparr>filtered_frame := Some r,
            calls := calls c @
              [FgApply frame, CurrentFilter (filters c) (bitwise_and ev frame frame fg_mask)],
            state := ShowPic \<lparr>show_image_time = fadd (tick c) 10\<rparr>,
            state_id := Suc (state_id c),
            ui := ui_run [Hide [''countdown''], Hide [''countdown'']] (ui c)\<rparr>)"
  | (showing) self where "state c = ShowPic self" "\<not> show_image_time self < t"
      "update ev t frame c = Done (c\<lparr>out_frame := filtered_frame c\<rparr>)"
  | (returning) self where "state c = ShowPic self" "show_image_time self < t"
      "update ev t frame c =
         Done (c\<lparr>out_frame := filtered_frame c, state := Idle Idle_init,
            state_id := Suc (state_id c),
            ui := ui_run [Show [''help_1'', ''help_2'', ''filter_name'', ''bar''],
                          SetProg ''bar'' 0] (ui c)\<rparr>)"
proof (cases "state c")
  case Startup
  show ?thesis
    by (rule that(1) [OF Startup]) (simp add: Startup_step [OF Startup] set_state_Idle [OF ready])
next
  case (Idle self)
  show ?thesis
  proof (cases "finger_frame_interval self < t")
    case False
    show ?thesis by (rule that(2) [OF Idle False Idle_not_sampled [OF Idle False]])
  next
    case fired: True
    show ?thesis
    proof (cases "count_fingers ev frame")
      case (Inl e)
      show ?thesis by (rule that(3) [OF Idle fired Inl Idle_classifier_fails [OF Idle fired Inl]])
    next
      case (Inr k)
      show ?thesis
      proof (cases "1 \<le> sampled_cnt k (take_pic_cnt self)")
        case True
        show ?thesis
          by (rule that(4) [OF Idle fired Inr True Idle_sampled_trigger [OF Idle fired Inr ready True]])
      next
        case low: False
        show ?thesis
        proof (cases "k = 2 \<and> change_filter_time self \<le> t \<and> sampled_cnt k (take_pic_cnt self) \<le> 0")
          case True
          then have a: "k = 2" and b: "change_filter_time self \<le> t"
            and d: "sampled_cnt k (take_pic_cnt self) \<le> 0" by blast+
          show ?thesis
            by (rule that(5) [OF Idle fired Inr low a b d
                  Idle_sampled_rotate [OF Idle fired Inr ready low a b d]])
        next
          case False
          show ?thesis
            by (rule that(6) [OF Idle fired Inr low False
                  Idle_sampled_plain [OF Idle fired Inr ready low False]])
        qed
      qed
    qed
  qed
next
  case (Filter self)
  show ?thesis
  proof (cases "t < countdown_time self")
    case True
    show ?thesis by (rule that(7) [OF Filter True Filter_counting [OF Filter True ready]])
  next
    case over: False
    show ?thesis
    proof (cases "fg_apply ev frame")
      case (Inl e)
      show ?thesis
        by (rule that(8) [OF Filter over Inl Filter_masker_fails [OF Filter over ready Inl]])
    next
      case (Inr fg_mask)
      show ?thesis
      proof (cases "current_filter ev (filters c) (bitwise_and ev frame frame fg_mask)")
        case (Inl e)
        show ?thesis
          by (rule that(9) [OF Filter over Inr Inl
                Filter_transform_fails [OF Filter over ready Inr Inl]])
      next
        case r: (Inr r)
        show ?thesis
          by (rule that(10) [OF Filter over Inr r Filter_expired [OF Filter over ready Inr r]])
      qed
    qed
  qed
next
  case (ShowPic self)
  show ?thesis
  proof (cases "show_image_time self < t")
    case True
    show ?thesis by (rule that(12) [OF ShowPic True ShowPic_over [OF ShowPic True ready]])
  next
    case False
    show ?thesis by (rule that(11) [OF ShowPic False ShowPic_showing [OF ShowPic False]])
  qed
qed


subsection \<open>What every update keeps\<close>

lemma rnd_minus_lit_0_1: "rnd (- lit_0_1) = - lit_0_1"
  unfolding lit_0_1_val by code_simp

lemma lit_0_05_pos: "0 < lit_0_05"
  unfolding lit_0_05_val by simp

lemma sampled_cnt_lower:
  assumes "- lit_0_1 \<le> a"
  shows "- lit_0_1 \<le> sampled_cnt k a"
proof -
  have "- lit_0_1 \<le> fadd a lit_0_05"
  proof -
    have "- lit_0_1 \<le> a + lit_0_05" using assms lit_0_05_pos by simp
    then have "rnd (- lit_0_1) \<le> rnd (a + lit_0_05)" by (rule rnd_mono)
    then show ?thesis by (simp add: fadd_def rnd_minus_lit_0_1)
  qed
  moreover have "- lit_0_1 \<le> fsub a lit_0_1" if "0 < a"
  proof -
    have "- lit_0_1 \<le> a - lit_0_1" using that by simp
    then have "rnd (- lit_0_1) \<le> rnd (a - lit_0_1)" by (rule rnd_mono)
    then show ?thesis by (simp add: fsub_def rnd_minus_lit_0_1)
  qed
  ultimately show ?thesis using assms by (simp add: sampled_cnt_def)
qed

lemma update_keeps:
  assumes ready: "ui_ready (ui c)"
  shows "ui_ready (ui (reached (update ev t frame c)))"
    and "stopped (reached (update ev t frame c)) = stopped c"
    and "tick (reached (update ev t frame c)) = tick c"
  using ready
  by (cases rule: update_cases [where ev = ev and t = t and frame = frame];
      simp add: ui_ready_ui_run del: ui_run.simps)+

lemma update_cnt_bounded:
  assumes ready: "ui_ready (ui c)" and inv: "cnt_bounded c"
  shows "cnt_bounded (reached (update ev t frame c))"
  using ready
proof (cases rule: update_cases [where ev = ev and t = t and frame = frame])
  case (rotating self k)
  then show ?thesis using inv sampled_cnt_lower [of "take_pic_cnt self" k]
    by (simp add: cnt_bounded_def)
next
  case (sampling self k)
  then show ?thesis using inv sampled_cnt_lower [of "take_pic_cnt self" k]
    by (simp add: cnt_bounded_def)
qed (use inv in \<open>simp_all add: cnt_bounded_def Idle_init_def lit_0_1_val del: ui_run.simps\<close>)

lemma process_Raised: "process ins c = Raised e c' \<Longrightarrow> ins \<noteq> []"
  by (cases ins) simp_all

lemma process_step:
  "\<not> stopped c \<Longrightarrow> process ((ev, t, frame) # rest) c =
     (case update ev t frame (c\<lparr>tick := t\<rparr>) of
        Done c' \<Rightarrow> process rest c' | Raised e c' \<Rightarrow> Raised e c')"
  by simp

lemma process_keeps:
  assumes "ui_ready (ui c)" and "cnt_bounded c"
  shows "ui_ready (ui (reached (process ins c))) \<and> cnt_bounded (reached (process ins c)) \<and>
         stopped (reached (process ins c)) = stopped c"
  using assms
proof (induction ins arbitrary: c)
  case Nil
  then show ?case by simp
next
  case (Cons x rest)
  obtain ev t frame where x: "x = (ev, t, frame)" by (cases x) auto
  let ?c = "c\<lparr>tick := t\<rparr>"
  have ready: "ui_ready (ui ?c)" using Cons.prems by simp
  have inv: "cnt_bounded ?c" using Cons.prems by (simp add: cnt_bounded_def)
  note k = update_keeps [OF ready, of ev t frame] update_cnt_bounded [OF ready inv, of ev t frame]
  show ?case
  proof (cases "stopped c")
    case True
    then show ?thesis using Cons.prems x by simp
  next
    case False
    show ?thesis
    proof (cases "update ev t frame ?c")
      case (Done c')
      then show ?thesis using k Cons.IH [of c'] False x by simp
    next
      case (Raised e c')
      then show ?thesis using k False x by simp
    qed
  qed
qed

lemma held_Suc: "held (Suc n) = fadd (held n) lit_0_05"
  by (simp add: held_def)

lemma held_0: "held 0 = 0"
  by (simp add: held_def)


section \<open>The capture gesture\<close>

text \<open>
  The accumulator after \<open>n\<close> qualifying samples, computed in binary64: the twentieth sum
  is the first that reaches 1.0 (it is \<open>1 + 2\<^sup>-\<^sup>5\<^sup>2\<close>).
\<close>

lemma held_1: "held 1 = 3602879701896397 / 72057594037927936"
proof -
  have step: "fadd (0) lit_0_05 = 3602879701896397 / 72057594037927936"
    unfolding lit_0_05_val by code_simp
  have s: "held 1 = fadd (held 0) lit_0_05"
    by (simp add: held_def eval_nat_numeral)
  show ?thesis unfolding s held_0 by (rule step)
qed

lemma held_2: "held 2 = 3602879701896397 / 36028797018963968"
proof -
  have step: "fadd (3602879701896397 / 72057594037927936) lit_0_05 = 3602879701896397 / 36028797018963968"
    unfolding lit_0_05_val by code_simp
  have s: "held 2 = fadd (held 1) lit_0_05"
    by (simp add: held_def eval_nat_numeral)
  show ?thesis unfolding s held_1 by (rule step)
qed

lemma held_3: "held 3 = 1351079888211149 / 9007199254740992"
proof -
  have step: "fadd (3602879701896397 / 36028797018963968) lit_0_05 = 1351079888211149 / 9007199254740992"
    unfolding lit_0_05_val by code_simp
  have s: "held 3 = fadd (held 2) lit_0_05"
    by (simp add: held_def eval_nat_numeral)
  show ?thesis unfolding s held_2 by (rule step)
qed

lemma held_4: "held 4 = 3602879701896397 / 18014398509481984"
proof -
  have step: "fadd (1351079888211149 / 9007199254740992) lit_0_05 = 3602879701896397 / 18014398509481984"
    unfolding lit_0_05_val by code_simp
  have s: "held 4 = fadd (held 3) lit_0_05"
    by (simp add: held_def eval_nat_numeral)
  show ?thesis unfolding s held_3 by (rule step)
qed

lemma held_5: "held 5 = 1 / 4"
proof -
  have step: "fadd (3602879701896397 / 18014398509481984) lit_0_05 = 1 / 4"
    unfolding lit_0_05_val by code_simp
  have s: "held 5 = fadd (held 4) lit_0_05"
    by (simp add: held_def eval_nat_numeral)
  show ?thesis unfolding s held_4 by (rule step)
qed

lemma held_6: "held 6 = 5404319552844595 / 18014398509481984"
proof -
  have step: "fadd (1 / 4) lit_0_05 = 5404319552844595 / 18014398509481984"
    unfolding lit_0_05_val by code_simp
  have s: "held 6 = fadd (held 5) lit_0_05"
    by (simp add: held_def eval_nat_numeral)
  show ?thesis unfolding s held_5 by (rule step)
qed

lemma held_7: "held 7 = 3152519739159347 / 9007199254740992"
proof -
  have step: "fadd (5404319552844595 / 18014398509481984) lit_0_05 = 3152519739159347 / 9007199254740992"
    unfolding lit_0_05_val by code_simp
  have s: "held 7 = fadd (held 6) lit_0_05"
    by (simp add: held_def eval_nat_numeral)
  show ?thesis unfolding s held_6 by (rule step)
qed

lemma held_8: "held 8 = 7205759403792793 / 18014398509481984"
proof -
  have step: "fadd (3152519739159347 / 9007199254740992) lit_0_05 = 7205759403792793 / 18014398509481984"
    unfolding lit_0_05_val by code_simp
  have s: "held 8 = fadd (held 7) lit_0_05"
    by (simp add: held_def eval_nat_numeral)
  show ?thesis unfolding s held_7 by (rule step)
qed

lemma held_9: "held 9 = 2026619832316723 / 4503599627370496"
proof -
  have step: "fadd (7205759403792793 / 18014398509481984) lit_0_05 = 2026619832316723 / 4503599627370496"
    unfolding lit_0_05_val by code_simp
  have s: "held 9 = fadd (held 8) lit_0_05"
    by (simp add: held_def eval_nat_numeral)
  show ?thesis unfolding s held_8 by (rule step)
qed

lemma held_10: "held 10 = 9007199254740991 / 18014398509481984"
proof -
  have step: "fadd (2026619832316723 / 4503599627370496) lit_0_05 = 9007199254740991 / 18014398509481984"
    unfolding lit_0_05_val by code_simp
  have s: "held 10 = fadd (held 9) lit_0_05"
    by (simp add: held_def eval_nat_numeral)
  show ?thesis unfolding s held_9 by (rule step)
qed

lemma held_11: "held 11 = 4953959590107545 / 9007199254740992"
proof -
  have step: "fadd (9007199254740991 / 18014398509481984) lit_0_05 = 4953959590107545 / 9007199254740992"
    unfolding lit_0_05_val by code_simp
  have s: "held 11 = fadd (held 10) lit_0_05"
    by (simp add: held_def eval_nat_numeral)
  show ?thesis unfolding s held_10 by (rule step)
qed

lemma held_12: "held 12 = 5404319552844595 / 9007199254740992"
proof -
  have step: "fadd (4953959590107545 / 9007199254740992) lit_0_05 = 5404319552844595 / 9007199254740992"
    unfolding lit_0_05_val by code_simp
  have s: "held 12 = fadd (held 11) lit_0_05"
    by (simp add: held_def eval_nat_numeral)
  show ?thesis unfolding s held_11 by (rule step)
qed

lemma held_13: "held 13 = 5854679515581645 / 9007199254740992"
proof -
  have step: "fadd (5404319552844595 / 9007199254740992) lit_0_05 = 5854679515581645 / 9007199254740992"
    unfolding lit_0_05_val by code_simp
  have s: "held 13 = fadd (held 12) lit_0_05"
    by (simp add: held_def eval_nat_numeral)
  show ?thesis unfolding s held_12 by (rule step)
qed

lemma held_14: "held 14 = 6305039478318695 / 9007199254740992"
proof -
  have step: "fadd (5854679515581645 / 9007199254740992) lit_0_05 = 6305039478318695 / 9007199254740992"
    unfolding lit_0_05_val by code_simp
  have s: "held 14 = fadd (held 13) lit_0_05"
    by (simp add: held_def eval_nat_numeral)
  show ?thesis unfolding s held_13 by (rule step)
qed

lemma held_15: "held 15 = 6755399441055745 / 9007199254740992"
proof -
  have step: "fadd (6305039478318695 / 9007199254740992) lit_0_05 = 6755399441055745 / 9007199254740992"
    unfolding lit_0_05_val by code_simp
  have s: "held 15 = fadd (held 14) lit_0_05"
    by (simp add: held_def eval_nat_numeral)
  show ?thesis unfolding s held_14 by (rule step)
qed

lemma held_16: "held 16 = 7205759403792795 / 9007199254740992"
proof -
  have step: "fadd (6755399441055745 / 9007199254740992) lit_0_05 = 7205759403792795 / 9007199254740992"
    unfolding lit_0_05_val by code_simp
  have s: "held 16 = fadd (held 15) lit_0_05"
    by (simp add: held_def eval_nat_numeral)
  show ?thesis unfolding s held_15 by (rule step)
qed

lemma held_17: "held 17 = 7656119366529845 / 9007199254740992"
proof -
  have step: "fadd (7205759403792795 / 9007199254740992) lit_0_05 = 7656119366529845 / 9007199254740992"
    unfolding lit_0_05_val by code_simp
  have s: "held 17 = fadd (held 16) lit_0_05"
    by (simp add: held_def eval_nat_numeral)
  show ?thesis unfolding s held_16 by (rule step)
qed

lemma held_18: "held 18 = 8106479329266895 / 9007199254740992"
proof -
  have step: "fadd (7656119366529845 / 9007199254740992) lit_0_05 = 8106479329266895 / 9007199254740992"
    unfolding lit_0_05_val by code_simp
  have s: "held 18 = fadd (held 17) lit_0_05"
    by (simp add: held_def eval_nat_numeral)
  show ?thesis unfolding s held_17 by (rule step)
qed

lemma held_19: "held 19 = 8556839292003945 / 9007199254740992"
proof -
  have step: "fadd (8106479329266895 / 9007199254740992) lit_0_05 = 8556839292003945 / 9007199254740992"
    unfolding lit_0_05_val by code_simp
  have s: "held 19 = fadd (held 18) lit_0_05"
    by (simp add: held_def eval_nat_numeral)
  show ?thesis unfolding s held_18 by (rule step)
qed

lemma held_20: "held 20 = 4503599627370497 / 4503599627370496"
proof -
  have step: "fadd (8556839292003945 / 9007199254740992) lit_0_05 = 4503599627370497 / 4503599627370496"
    unfolding lit_0_05_val by code_simp
  have s: "held 20 = fadd (held 19) lit_0_05"
    by (simp add: held_def eval_nat_numeral)
  show ?thesis unfolding s held_19 by (rule step)
qed

lemma held_below_1: "n < 20 \<Longrightarrow> held n < 1"
proof -
  assume "n < 20"
  then consider (a) "n < 5" | (b) "5 \<le> n" "n < 10" | (c) "10 \<le> n" "n < 15"
    | (d) "15 \<le> n" "n < 20"
    by linarith
  then show ?thesis
  proof cases
    case a
    then have "n = 0 \<or> n = 1 \<or> n = 2 \<or> n = 3 \<or> n = 4" by presburger
    then show ?thesis by (elim disjE) (simp_all add: held_0 held_1 [unfolded One_nat_def] held_1 held_2 held_3 held_4)
  next
    case b
    then have "n = 5 \<or> n = 6 \<or> n = 7 \<or> n = 8 \<or> n = 9" by presburger
    then show ?thesis by (elim disjE) (simp_all add: held_5 held_6 held_7 held_8 held_9)
  next
    case c
    then have "n = 10 \<or> n = 11 \<or> n = 12 \<or> n = 13 \<or> n = 14" by presburger
    then show ?thesis by (elim disjE) (simp_all add: held_10 held_11 held_12 held_13 held_14)
  next
    case d
    then have "n = 15 \<or> n = 16 \<or> n = 17 \<or> n = 18 \<or> n = 19" by presburger
    then show ?thesis by (elim disjE) (simp_all add: held_15 held_16 held_17 held_18 held_19)
  qed
qed

lemma held_20_reaches_1: "1 \<le> held 20"
  by (simp add: held_20)

lemma sustained_run:
  assumes "ui_ready (ui c)" and "\<not> stopped c" and "state c = Idle self"
    and "take_pic_cnt self = held m"
    and "sustained5 (finger_frame_interval self) ins" and "m + length ins \<le> 20"
  shows "(m + length ins < 20 \<longrightarrow>
           (\<exists>c' self'. process ins c = Done c' \<and> state c' = Idle self' \<and>
              take_pic_cnt self' = held (m + length ins) \<and>
              (ins \<noteq> [] \<longrightarrow>
                 finger_frame_interval self' = fadd (fst (snd (last ins))) lit_0_1))) \<and>
         (m + length ins = 20 \<and> ins \<noteq> [] \<longrightarrow>
           (\<exists>c'. process ins c = Done c' \<and>
              state c' = Filter \<lparr>countdown_time = fadd (fst (snd (last ins))) 4\<rparr>))"
  using assms
proof (induction ins arbitrary: c self m)
  case Nil
  then show ?case by simp
next
  case (Cons x rest)
  obtain ev t frame where x: "x = (ev, t, frame)" by (cases x) auto
  let ?c = "c\<lparr>tick := t\<rparr>"
  have fired: "finger_frame_interval self < t" and five: "count_fingers ev frame = Inr 5"
    and rest: "sustained5 (fadd t lit_0_1) rest"
    using Cons.prems(5) by (simp_all add: x fsub_neg_iff)
  have ready: "ui_ready (ui ?c)" and st: "state ?c = Idle self"
    using Cons.prems by simp_all
  have cnt: "sampled_cnt 5 (take_pic_cnt self) = held (Suc m)"
    by (simp add: sampled_cnt_def Cons.prems(4) held_Suc)
  show ?case
  proof (cases "Suc m < 20")
    case True
    then have low: "\<not> 1 \<le> sampled_cnt 5 (take_pic_cnt self)"
      using held_below_1 [of "Suc m"] by (simp add: cnt)
    have norot: "\<not> ((5::int) = 2 \<and> change_filter_time self \<le> t \<and>
        sampled_cnt 5 (take_pic_cnt self) \<le> 0)" by simp
    let ?self = "self\<lparr>take_pic_cnt := sampled_cnt 5 (take_pic_cnt self),
                       finger_frame_interval := fadd t lit_0_1\<rparr>"
    let ?c' = "?c\<lparr>out_frame := Some frame, calls := calls ?c @ [CountFingers frame],
            state := Idle ?self,
            ui := ui_run [SetProg ''bar'' (sampled_cnt 5 (take_pic_cnt self))] (ui ?c)\<rparr>"
    have step: "update ev t frame ?c = Done ?c'"
      by (rule Idle_sampled_plain [OF st fired five ready low norot])
    have p: "process (x # rest) c = process rest ?c'"
      using Cons.prems(2) step by (simp add: x)
    have ih: "(Suc m + length rest < 20 \<longrightarrow>
           (\<exists>c' self'. process rest ?c' = Done c' \<and> state c' = Idle self' \<and>
              take_pic_cnt self' = held (Suc m + length rest) \<and>
              (rest \<noteq> [] \<longrightarrow>
                 finger_frame_interval self' = fadd (fst (snd (last rest))) lit_0_1))) \<and>
         (Suc m + length rest = 20 \<and> rest \<noteq> [] \<longrightarrow>
           (\<exists>c'. process rest ?c' = Done c' \<and>
              state c' = Filter \<lparr>countdown_time = fadd (fst (snd (last rest))) 4\<rparr>))"
    proof (rule Cons.IH [of ?c' ?self "Suc m"])
      show "ui_ready (ui ?c')" using ready by (simp add: ui_ready_ui_run del: ui_run.simps)
      show "\<not> stopped ?c'" using Cons.prems(2) by simp
      show "state ?c' = Idle ?self" by simp
      show "take_pic_cnt ?self = held (Suc m)" by (simp add: cnt)
      show "sustained5 (finger_frame_interval ?self) rest" using rest by simp
      show "Suc m + length rest \<le> 20" using Cons.prems(6) by simp
    qed
    show ?thesis
    proof (cases "rest = []")
      case True
      then show ?thesis using ih p \<open>Suc m < 20\<close> by (simp add: x)
    next
      case False
      then show ?thesis using ih p by simp
    qed
  next
    case False
    have len: "m + Suc (length rest) \<le> 20" using Cons.prems(6) by simp
    have m: "Suc m = 20" using False len by linarith
    have "length rest \<le> 0" using False len by linarith
    then have emp: "rest = []" by simp
    have high: "1 \<le> sampled_cnt 5 (take_pic_cnt self)"
      using held_20_reaches_1 by (simp add: cnt m)
    have "update ev t frame ?c =
       Done (?c\<lparr>out_frame := Some frame, calls := calls ?c @ [CountFingers frame],
            state := Filter \<lparr>countdown_time = fadd (tick ?c) 4\<rparr>, state_id := Suc (state_id ?c),
            ui := ui_run [Hide [''help_1'', ''help_2'', ''filter_name'', ''bar''],
                          SetText ''countdown'' ''3'', Show [''countdown''],
                          SetProg ''bar'' (sampled_cnt 5 (take_pic_cnt self))] (ui ?c)\<rparr>)"
      by (rule Idle_sampled_trigger [OF st fired five ready high])
    then show ?thesis using Cons.prems(2) m emp by (simp add: x del: ui_run.simps)
  qed
qed

subsection \<open>The controller after start-up\<close>

lemma CanvasCore_init_Done:
  "CanvasCore_init t fc =
     Done \<lparr>tick = t, out_frame = None, filtered_frame = None, filters = fc,
       ui = ui_run
         [CreateText ''help_1'' (20, 690) 35, CreateText ''help_2'' (20, 650) 35,
          CreateText ''countdown'' (620, 360) 70, CreateText ''filter_name'' (800, 670) 35,
          SetText ''countdown'' ''0'', SetText ''help_1'' ''Show 5 fingers to take a picture!'',
          SetText ''help_2'' ''Show 2 fingers to change filter'',
          SetText ''filter_name'' (''Current filter is '' @ current_name fc),
          CreateProgressbar ''bar''] UI_init,
       state = Startup, state_id = Suc 0, stopped = False, calls = []\<rparr>"
  by (simp add: CanvasCore_init_def set_state_def enter_def Startup_enter_Done del: ui_run.simps)

lemma boot_core_facts:
  "state boot_core = Startup" "ui_ready (ui boot_core)" "\<not> stopped boot_core"
  "calls boot_core = []" "tick boot_core = 0" "filters boot_core = two_filters"
  "out_frame boot_core = None" "filtered_frame boot_core = None" "state_id boot_core = Suc 0"
  by (simp_all add: boot_core_def CanvasCore_init_Done ui_ready_def ui_run_dom UI_init_def
      del: ui_run.simps)

lemma idle_core_facts:
  "state idle_core = Idle Idle_init" "ui_ready (ui idle_core)" "\<not> stopped idle_core"
  "calls idle_core = []" "tick idle_core = 0" "filters idle_core = two_filters"
  "out_frame idle_core = None" "filtered_frame idle_core = None" "state_id idle_core = Suc (Suc 0)"
  using Startup_step [OF boot_core_facts(1), of "stub_env 0" 0 0]
    set_state_Idle [OF boot_core_facts(2)]
  by (simp_all add: idle_core_def boot_core_facts ui_ready_ui_run del: ui_run.simps)

lemma fadd_0_4: "fadd 0 4 = 4"
  by code_simp

lemma fadd_0_10: "fadd 0 10 = 10"
  by code_simp

lemma filter_core_facts:
  "state filter_core = Filter \<lparr>countdown_time = 4\<rparr>" "ui_ready (ui filter_core)"
  "\<not> stopped filter_core" "calls filter_core = []" "tick filter_core = 0"
  "filters filter_core = two_filters" "out_frame filter_core = None"
  "filtered_frame filter_core = None"
  using set_state_Filter [OF idle_core_facts(2)]
  by (simp_all add: filter_core_def idle_core_facts ui_ready_ui_run fadd_0_4 del: ui_run.simps)

lemma showpic_core_facts:
  "state showpic_core = ShowPic \<lparr>show_image_time = 10\<rparr>" "ui_ready (ui showpic_core)"
  "\<not> stopped showpic_core" "calls showpic_core = []" "tick showpic_core = 0"
  "filters showpic_core = two_filters" "out_frame showpic_core = None"
  "filtered_frame showpic_core = None"
  using set_state_ShowPic [OF idle_core_facts(2)]
  by (simp_all add: showpic_core_def idle_core_facts ui_ready_ui_run fadd_0_10 del: ui_run.simps)

lemma stub_env_simps:
  "count_fingers (stub_env k) frame = Inr k" "fg_apply (stub_env k) frame = Inr (frame + 100)"
  "bitwise_and (stub_env k) a b m = a + m"
  "current_filter (stub_env k) fc frame = Inr (frame + index fc)"
  by (simp_all add: stub_env_def)

lemma broken_env_simps:
  "count_fingers broken_env frame = Inl ExternalError"
  "fg_apply broken_env frame = Inl ExternalError"
  "current_filter broken_env fc frame = Inl ExternalError"
  by (simp_all add: broken_env_def)

subsection \<open>The capture-intent accumulator\<close>

lemma fst_reached_on_core: "fst (reached (on_core f (self, c))) = self"
  by (cases "f c") (simp_all add: on_core_def)

lemma idle_core_bounded: "cnt_bounded idle_core"
  by (simp add: cnt_bounded_def idle_core_facts Idle_init_def lit_0_1_val)

lemma fadd_0_lit_0_05: "fadd 0 lit_0_05 = lit_0_05"
  unfolding lit_0_05_val by code_simp

lemma fsub_lit_0_05_lit_0_1: "fsub lit_0_05 lit_0_1 = - lit_0_05"
  unfolding lit_0_05_val lit_0_1_val by code_simp

lemma fadd_1_lit_0_1: "fadd 1 lit_0_1 < 2"
  unfolding lit_0_1_val by code_simp

lemma one_then_zero:
  "process [(stub_env 5, 1, 0), (stub_env 0, 2, 0)] idle_core =
     Done (idle_core\<lparr>tick := 2, out_frame := Some 0,
        calls := [CountFingers 0, CountFingers 0],
        state := Idle \<lparr>take_pic_cnt = - lit_0_05, change_filter_time = 0,
                       finger_frame_interval = fadd 2 lit_0_1\<rparr>,
        ui := ui_run [SetProg ''bar'' lit_0_05, SetProg ''bar'' (- lit_0_05)] (ui idle_core)\<rparr>)"
proof -
  let ?c1 = "idle_core\<lparr>tick := 1\<rparr>"
  let ?s1 = "Idle_init\<lparr>take_pic_cnt := lit_0_05, finger_frame_interval := fadd 1 lit_0_1\<rparr>"
  let ?d1 = "?c1\<lparr>out_frame := Some 0, calls := calls ?c1 @ [CountFingers 0],
      state := Idle ?s1, ui := ui_run [SetProg ''bar'' lit_0_05] (ui ?c1)\<rparr>"
  have a1: "sampled_cnt 5 0 = lit_0_05"
    by (simp add: sampled_cnt_def fadd_0_lit_0_05)
  have low: "\<not> 1 \<le> lit_0_05" by (simp add: lit_0_05_val)
  have u1: "update (stub_env 5) 1 0 ?c1 = Done ?d1"
    using Idle_sampled_plain [of ?c1 Idle_init 1 "stub_env 5" 0 5] low
    by (simp add: idle_core_facts stub_env_simps a1 Idle_init_def del: ui_run.simps)
  let ?c2 = "?d1\<lparr>tick := 2\<rparr>"
  have a2: "sampled_cnt 0 lit_0_05 = - lit_0_05"
    using lit_0_05_pos by (simp add: sampled_cnt_def fsub_lit_0_05_lit_0_1)
  have u2: "update (stub_env 0) 2 0 ?c2 =
     Done (?c2\<lparr>out_frame := Some 0, calls := calls ?c2 @ [CountFingers 0],
        state := Idle (?s1\<lparr>take_pic_cnt := - lit_0_05, finger_frame_interval := fadd 2 lit_0_1\<rparr>),
        ui := ui_run [SetProg ''bar'' (- lit_0_05)] (ui ?c2)\<rparr>)"
    using Idle_sampled_plain [of ?c2 ?s1 2 "stub_env 0" 0 0] fadd_1_lit_0_1 lit_0_05_pos
    by (simp add: idle_core_facts stub_env_simps a2 ui_ready_ui_run del: ui_run.simps)
  show ?thesis
    using u1 u2
    by (simp add: idle_core_facts Idle_init_def ui_run_ui_run del: ui_run.simps)
qed

text \<open>
  C1, as amended. A sample with finger count 5 adds 0.05 to the capture-intent
  accumulator; a sample with any other count subtracts 0.1 when the accumulator is
  positive, without clamping the result at 0, and leaves it unchanged otherwise. So the
  accumulator can become negative, but it never falls below -0.1: if it is at least -0.1
  in an Idle state, it is at least -0.1 in every Idle state the loop reaches from there.
\<close>

theorem take_pic_cnt_bounded_below:
  "take_pic_cnt (fst (reached (update_filter_trigger k (self, c)))) =
     (if k = 5 then fadd (take_pic_cnt self) lit_0_05
      else if 0 < take_pic_cnt self then fsub (take_pic_cnt self) lit_0_1
      else take_pic_cnt self) \<and>
   (ui_ready (ui c) \<and> cnt_bounded c \<longrightarrow> cnt_bounded (reached (process ins c)))"
proof
  show "take_pic_cnt (fst (reached (update_filter_trigger k (self, c)))) =
     (if k = 5 then fadd (take_pic_cnt self) lit_0_05
      else if 0 < take_pic_cnt self then fsub (take_pic_cnt self) lit_0_1
      else take_pic_cnt self)"
    by (simp add: trigger_cnt fst_reached_on_core sampled_cnt_def)
  show "ui_ready (ui c) \<and> cnt_bounded c \<longrightarrow> cnt_bounded (reached (process ins c))"
    using process_keeps [of c ins] by simp
qed

text \<open>C1 on \<open>idle_core\<close>, with one qualifying and one interrupting sample.\<close>

theorem take_pic_cnt_bounded_below_witness:
  "take_pic_cnt (fst (reached (update_filter_trigger 5 (Idle_init, idle_core)))) = lit_0_05 \<and>
   ui_ready (ui idle_core) \<and> cnt_bounded idle_core \<and>
   cnt_bounded (reached (process [(stub_env 5, 1, 0), (stub_env 0, 2, 0)] idle_core))"
  using take_pic_cnt_bounded_below [of 5 Idle_init idle_core
      "[(stub_env 5, 1, 0), (stub_env 0, 2, 0)]"]
  by (simp add: idle_core_facts idle_core_bounded Idle_init_def fadd_0_lit_0_05)

text \<open>
  C1 as stated fails: one qualifying sample followed by one interrupting sample leaves
  the accumulator at -0.05, where the stated value is \<open>max 0 (1 * 0.05 - 0.1) = 0\<close>.
\<close>

theorem take_pic_cnt_negative:
  "state (reached (process [(stub_env 5, 1, 0), (stub_env 0, 2, 0)] idle_core)) =
     Idle \<lparr>take_pic_cnt = - lit_0_05, change_filter_time = 0,
           finger_frame_interval = fadd 2 lit_0_1\<rparr> \<and>
   - lit_0_05 < 0 \<and> - lit_0_05 \<noteq> max 0 (1 * (5 / 100) - 1 / 10)"
  unfolding one_then_zero by (simp add: lit_0_05_val del: ui_run.simps)


subsection \<open>Small integers are floats\<close>

lemma rnd_of_nat:
  assumes "n < 2 ^ 53"
  shows "rnd (of_nat n) = of_nat n"
proof (cases "n = 0")
  case True
  then show ?thesis by (simp add: rnd_def)
next
  case False
  define x :: rat where "x = of_nat n"
  have x1: "1 \<le> x" using False by (simp add: x_def)
  then have x0: "0 < x" by simp
  have xlt: "x < 2 ^ 53"
  proof -
    have "(of_nat n :: rat) < of_nat (2 ^ 53)" using assms unfolding of_nat_less_iff .
    then show ?thesis by (simp add: x_def)
  qed
  define e where "e = expo x"
  have lo: "2 powi e \<le> x" and hi: "x < 2 powi (e + 1)"
    using expo_bounds [OF x0] by (simp_all add: e_def)
  have e_le: "e \<le> 52"
  proof (rule ccontr)
    assume "\<not> e \<le> 52"
    then have "53 \<le> e" by simp
    then have "(2::rat) powi 53 \<le> 2 powi e" by (rule power_int_increasing) simp
    with lo xlt show False by simp
  qed
  have e_ge: "0 \<le> e"
  proof (rule ccontr)
    assume "\<not> 0 \<le> e"
    then have "e + 1 \<le> 0" by simp
    then have "(2::rat) powi (e + 1) \<le> 2 powi 0" by (rule power_int_increasing) simp
    with hi x1 show False by simp
  qed
  define k where "k = nat (52 - e)"
  have u: "(2::rat) powi (e - 52) = 1 / 2 ^ k"
  proof -
    have "e - 52 = - int k" using e_le by (simp add: k_def)
    then have "(2::rat) powi (e - 52) = 2 powi (- int k)" by (rule arg_cong)
    also have "\<dots> = inverse (2 ^ k)" unfolding power_int_minus power_int_of_nat ..
    finally show ?thesis by (simp add: inverse_eq_divide)
  qed
  have q: "x / (1 / 2 ^ k) = of_int (int n * 2 ^ k)"
    by (simp add: x_def)
  have "rnd_pos x = of_int (rne (x / (1 / 2 ^ k))) * (1 / 2 ^ k)"
    unfolding rnd_pos_def Let_def e_def [symmetric] u ..
  also have "\<dots> = of_int (int n * 2 ^ k) * (1 / 2 ^ k)"
    unfolding q rne_of_int ..
  also have "\<dots> = x" by (simp add: x_def)
  finally show ?thesis using x0 by (simp add: rnd_def x_def)
qed

lemma lit_0_1_le_1: "lit_0_1 \<le> 1"
  by (simp add: lit_0_1_val)

lemma fadd_lit_0_1_nat:
  assumes "Suc n < 2 ^ 53"
  shows "fadd (of_nat n) lit_0_1 \<le> of_nat (Suc n)"
proof -
  have "of_nat n + lit_0_1 \<le> (of_nat (Suc n) :: rat)" using lit_0_1_le_1 by simp
  then have "rnd (of_nat n + lit_0_1) \<le> rnd (of_nat (Suc n))" by (rule rnd_mono)
  then show ?thesis unfolding fadd_def rnd_of_nat [OF assms] .
qed

lemma sustained5_fives:
  "d < of_nat t \<Longrightarrow> t + 2 * n < 2 ^ 53 \<Longrightarrow> sustained5 d (fives t n)"
proof (induction n arbitrary: t d)
  case 0
  show ?case by simp
next
  case (Suc n)
  have "Suc t < 2 ^ 53" using Suc.prems(2) by simp
  then have "fadd (of_nat t) lit_0_1 \<le> of_nat (Suc t)" by (rule fadd_lit_0_1_nat)
  also have "\<dots> < (of_nat (t + 2) :: rat)" by simp
  finally have "sustained5 (fadd (of_nat t) lit_0_1) (fives (t + 2) n)"
    using Suc.prems(2) by (intro Suc.IH) simp_all
  then show ?case using Suc.prems(1) by (simp add: stub_env_simps fsub_neg_iff)
qed

lemma length_fives: "length (fives t n) = n"
  by (induction n arbitrary: t) simp_all

lemma last_fives: "last (fives t (Suc n)) = (stub_env 5, of_nat (t + 2 * n), 0)"
proof (induction n arbitrary: t)
  case 0
  show ?case by simp
next
  case (Suc n)
  have unf: "fives t (Suc (Suc n)) = (stub_env 5, of_nat t, 0) # fives (t + 2) (Suc n)"
    by (rule fives.simps(2))
  have ne: "fives (t + 2) (Suc n) \<noteq> []" by simp
  have "last (fives t (Suc (Suc n))) = last (fives (t + 2) (Suc n))"
    unfolding unf by (rule last_ConsR [OF ne])
  also have "\<dots> = (stub_env 5, of_nat (t + 2 + 2 * n), 0)" by (rule Suc.IH)
  also have "t + 2 + 2 * n = t + 2 * Suc n" by simp
  finally show ?case .
qed

lemma Idle_update_outcome:
  assumes ready: "ui_ready (ui c)" and st: "state c = Idle self"
    and fired: "finger_frame_interval self < t" and k: "count_fingers ev frame = Inr k"
  shows "(\<exists>fs. state (reached (update ev t frame c)) = Filter fs) \<longleftrightarrow>
           1 \<le> sampled_cnt k (take_pic_cnt self)"
  using ready
proof (cases rule: update_cases [where ev = ev and t = t and frame = frame])
  case (triggering self' k')
  then show ?thesis using st k by (simp del: ui_run.simps)
next
  case (rotating self' k')
  then show ?thesis using st k by (simp del: ui_run.simps)
next
  case (sampling self' k')
  then show ?thesis using st k by (simp del: ui_run.simps)
qed (use st fired k in simp_all)

lemma fadd_40_4: "fadd 40 4 = 44"
  by code_simp

lemma twenty_fives:
  "process (fives 2 20) idle_core = Done c' \<Longrightarrow> state c' = Filter \<lparr>countdown_time = 44\<rparr>"
  "\<exists>c'. process (fives 2 20) idle_core = Done c'"
proof -
  have s: "sustained5 (finger_frame_interval Idle_init) (fives 2 20)"
    by (rule sustained5_fives) (simp_all add: Idle_init_def)
  have ne: "fives 2 20 \<noteq> []" using length_fives [of 2 20] by auto
  have "\<exists>c'. process (fives 2 20) idle_core = Done c' \<and>
      state c' = Filter \<lparr>countdown_time = fadd (fst (snd (last (fives 2 20)))) 4\<rparr>"
    using sustained_run [OF idle_core_facts(2,3,1) _ s, of 0] ne
    by (simp add: Idle_init_def held_0 length_fives)
  moreover have "fst (snd (last (fives 2 20))) = 40"
    using last_fives [of 2 19] by (simp add: eval_nat_numeral)
  ultimately have e: "\<exists>c'. process (fives 2 20) idle_core = Done c' \<and>
      state c' = Filter \<lparr>countdown_time = 44\<rparr>"
    by (simp add: fadd_40_4)
  then show "\<exists>c'. process (fives 2 20) idle_core = Done c'" by blast
  show "state c' = Filter \<lparr>countdown_time = 44\<rparr>" if "process (fives 2 20) idle_core = Done c'"
    using e that by auto
qed

text \<open>
  C2, as amended. A sampled Idle update ends in the Filter state exactly when the
  accumulator after that sample is at least 1.0. From a new Idle state, fewer than twenty
  consecutive sampled updates with finger count 5 leave the state Idle with the
  accumulator (the binary64 sum of that many 0.05) below 1.0, and the twentieth such
  update itself ends in the Filter state, with the countdown armed from its own tick: the
  transition is made inside the update that takes the twentieth sample, not by the next
  one.
\<close>

theorem capture_on_twentieth_sample:
  assumes "ui_ready (ui c)"
  shows "(state c = Idle self \<and> finger_frame_interval self < t \<and> count_fingers ev frame = Inr k \<longrightarrow>
           ((\<exists>fs. state (reached (update ev t frame c)) = Filter fs) \<longleftrightarrow>
              1 \<le> sampled_cnt k (take_pic_cnt self))) \<and>
         (\<not> stopped c \<and> state c = Idle Idle_init \<and> sustained5 0 ins \<and> length ins < 20 \<longrightarrow>
           (\<exists>c' self'. process ins c = Done c' \<and> state c' = Idle self' \<and>
              take_pic_cnt self' = held (length ins) \<and> held (length ins) < 1)) \<and>
         (\<not> stopped c \<and> state c = Idle Idle_init \<and> sustained5 0 ins \<and> length ins = 20 \<longrightarrow>
           (\<exists>c'. process ins c = Done c' \<and>
              state c' = Filter \<lparr>countdown_time = fadd (fst (snd (last ins))) 4\<rparr>))"
proof (intro conjI impI)
  assume "state c = Idle self \<and> finger_frame_interval self < t \<and> count_fingers ev frame = Inr k"
  then show "(\<exists>fs. state (reached (update ev t frame c)) = Filter fs) \<longleftrightarrow>
              1 \<le> sampled_cnt k (take_pic_cnt self)"
    using Idle_update_outcome [OF assms] by blast
next
  assume a: "\<not> stopped c \<and> state c = Idle Idle_init \<and> sustained5 0 ins \<and> length ins < 20"
  then have s: "sustained5 (finger_frame_interval Idle_init) ins" by (simp add: Idle_init_def)
  have h: "take_pic_cnt Idle_init = held 0" by (simp add: Idle_init_def held_0)
  show "\<exists>c' self'. process ins c = Done c' \<and> state c' = Idle self' \<and>
              take_pic_cnt self' = held (length ins) \<and> held (length ins) < 1"
    using sustained_run [OF assms _ _ h s] a held_below_1 [of "length ins"] by auto
next
  assume a: "\<not> stopped c \<and> state c = Idle Idle_init \<and> sustained5 0 ins \<and> length ins = 20"
  then have s: "sustained5 (finger_frame_interval Idle_init) ins" by (simp add: Idle_init_def)
  have h: "take_pic_cnt Idle_init = held 0" by (simp add: Idle_init_def held_0)
  have ne: "ins \<noteq> []" using a by auto
  show "\<exists>c'. process ins c = Done c' \<and>
              state c' = Filter \<lparr>countdown_time = fadd (fst (snd (last ins))) 4\<rparr>"
    using sustained_run [OF assms _ _ h s] a ne by auto
qed

text \<open>C2 on \<open>idle_core\<close>, with nineteen and with twenty qualifying samples.\<close>

theorem capture_on_twentieth_sample_witness:
  "ui_ready (ui idle_core) \<and> \<not> stopped idle_core \<and> state idle_core = Idle Idle_init \<and>
   finger_frame_interval Idle_init < 2 \<and> count_fingers (stub_env 5) 0 = Inr 5 \<and>
   \<not> (\<exists>fs. state (reached (update (stub_env 5) 2 0 idle_core)) = Filter fs) \<and>
   sustained5 0 (fives 2 19) \<and> length (fives 2 19) < 20 \<and>
   (\<exists>c' self'. process (fives 2 19) idle_core = Done c' \<and> state c' = Idle self' \<and>
      take_pic_cnt self' = held 19 \<and> held 19 < 1) \<and>
   sustained5 0 (fives 2 20) \<and> length (fives 2 20) = 20 \<and>
   (\<exists>c'. process (fives 2 20) idle_core = Done c' \<and>
      state c' = Filter \<lparr>countdown_time = fadd (fst (snd (last (fives 2 20)))) 4\<rparr>)"
proof -
  have s19: "sustained5 0 (fives 2 19)" and s20: "sustained5 0 (fives 2 20)"
    by (rule sustained5_fives; simp)+
  have "sampled_cnt 5 0 = lit_0_05" by (simp add: sampled_cnt_def fadd_0_lit_0_05)
  then have low: "\<not> 1 \<le> sampled_cnt 5 0" by (simp add: lit_0_05_val)
  show ?thesis
    using capture_on_twentieth_sample [OF idle_core_facts(2), of Idle_init 2 "stub_env 5" 0 5
        "fives 2 19"]
      capture_on_twentieth_sample [OF idle_core_facts(2), of Idle_init 2 "stub_env 5" 0 5
        "fives 2 20"]
      s19 s20 low
    by (simp add: idle_core_facts stub_env_simps length_fives Idle_init_def)
qed

text \<open>
  C2 as stated fails: when the loop has processed exactly twenty qualifying updates, and
  no update after them, the controller is already in the Filter state.
\<close>

theorem capture_inside_twentieth_update:
  "length (fives 2 20) = 20 \<and> succeeds (process (fives 2 20) idle_core) \<and>
   state (reached (process (fives 2 20) idle_core)) = Filter \<lparr>countdown_time = 44\<rparr>"
proof -
  obtain c' where "process (fives 2 20) idle_core = Done c'" using twenty_fives(2) by blast
  then show ?thesis using twenty_fives(1) by (simp add: length_fives)
qed


section \<open>Filter rotation and sampling\<close>

subsection \<open>What the UI shows after the commands of an update\<close>

lemma dom_set_text: "dom (elements (reached (set_text n x u))) = dom (elements u)"
  using ui_exec_dom [of "SetText n x" u] by simp

lemma dom_set_prog: "dom (elements (reached (set_prog n v u))) = dom (elements u)"
  using ui_exec_dom [of "SetProg n v" u] by simp

lemma dom_ui_show: "dom (elements (reached (ui_show ns u))) = dom (elements u)"
  using ui_exec_dom [of "Show ns" u] by simp

lemma dom_hide: "dom (elements (reached (hide ns u))) = dom (elements u)"
  using ui_exec_dom [of "Hide ns" u] by simp

lemmas ui_after = texts_set_text texts_set_prog texts_ui_show texts_hide
  shown_set_text shown_set_prog shown_ui_show shown_hide
  dom_set_text dom_set_prog dom_ui_show dom_hide

lemma sampled_cnt_2_nonpos: "sampled_cnt 2 a \<le> 0 \<longleftrightarrow> a \<le> lit_0_1"
proof (cases "0 < a")
  case True
  then show ?thesis by (simp add: sampled_cnt_def fsub_nonpos_iff)
next
  case False
  have "0 < lit_0_1" unfolding lit_0_1_val by simp
  with False show ?thesis by (simp add: sampled_cnt_def)
qed

text \<open>
  C3, as amended. On a sampled Idle update whose classification succeeds, the rotation
  check runs after the accumulator has been updated by this very sample, so the value it
  tests is not the one the sample meets. The carousel is advanced (once, with the deadline
  re-armed to tick + 1.5 and the filter-name label rewritten with the new name) exactly
  when the finger count is 2, the rotation deadline has expired (tick \<open>\<ge>\<close> deadline) and
  the accumulator the sample meets is at most 0.1, which is when the accumulator after
  this sample's own decrement is \<open>\<le> 0\<close>; otherwise the carousel, the deadline and the
  label are unchanged. So a sample that meets an accumulator above 0.1 never rotates,
  and one that meets an accumulator in (0, 0.1] does.
\<close>

theorem rotation_iff:
  assumes "ui_ready (ui c)" and "state c = Idle self" and "finger_frame_interval self < t"
    and "count_fingers ev frame = Inr k"
  shows "succeeds (update ev t frame c) \<and>
         (if k = 2 \<and> change_filter_time self \<le> t \<and> take_pic_cnt self \<le> lit_0_1
          then calls (reached (update ev t frame c)) = calls c @ [CountFingers frame, NextFilter] \<and>
               filters (reached (update ev t frame c)) = next_filter (filters c) \<and>
               state (reached (update ev t frame c)) =
                 Idle \<lparr>take_pic_cnt = sampled_cnt k (take_pic_cnt self),
                       change_filter_time = fadd t lit_1_5,
                       finger_frame_interval = fadd t lit_0_1\<rparr> \<and>
               sampled_cnt k (take_pic_cnt self) \<le> 0 \<and>
               texts (ui (reached (update ev t frame c))) ''filter_name'' =
                 Some (''Current filter is '' @ current_name (next_filter (filters c)))
          else calls (reached (update ev t frame c)) = calls c @ [CountFingers frame] \<and>
               filters (reached (update ev t frame c)) = filters c \<and>
               texts (ui (reached (update ev t frame c))) ''filter_name'' =
                 texts (ui c) ''filter_name'' \<and>
               (state (reached (update ev t frame c)) =
                  Idle (self\<lparr>take_pic_cnt := sampled_cnt k (take_pic_cnt self),
                              finger_frame_interval := fadd t lit_0_1\<rparr>) \<or>
                state (reached (update ev t frame c)) =
                  Filter \<lparr>countdown_time = fadd (tick c) 4\<rparr>))"
proof -
  note d = ui_readyD [OF assms(1)]
  have met: "(k = 2 \<and> change_filter_time self \<le> t \<and> take_pic_cnt self \<le> lit_0_1) =
             (k = 2 \<and> change_filter_time self \<le> t \<and> sampled_cnt k (take_pic_cnt self) \<le> 0)"
    using sampled_cnt_2_nonpos [of "take_pic_cnt self"] by auto
  show ?thesis
    using assms(1)
  proof (cases rule: update_cases [where ev = ev and t = t and frame = frame])
    case (triggering self' k')
    then have "self' = self" "k' = k" using assms by simp_all
    with triggering d show ?thesis unfolding met by (simp add: ui_after)
  next
    case (rotating self' k')
    then have "self' = self" "k' = k" using assms by simp_all
    with rotating d show ?thesis unfolding met by (simp add: ui_after)
  next
    case (sampling self' k')
    then have "self' = self" "k' = k" using assms by simp_all
    with sampling d show ?thesis unfolding met by (auto simp add: ui_after)
  qed (use assms in simp_all)
qed

lemma nineteen_core_facts:
  "ui_ready (ui nineteen_core)"
  "\<exists>self. state nineteen_core = Idle self \<and> take_pic_cnt self = held 19 \<and>
      finger_frame_interval self = fadd 38 lit_0_1"
proof -
  show "ui_ready (ui nineteen_core)"
    using process_keeps [OF idle_core_facts(2) idle_core_bounded, of "fives 2 19"]
    by (simp add: nineteen_core_def)
  have s: "sustained5 (finger_frame_interval Idle_init) (fives 2 19)"
    by (rule sustained5_fives) (simp_all add: Idle_init_def)
  have ne: "fives 2 19 \<noteq> []" using length_fives [of 2 19] by auto
  have l: "fst (snd (last (fives 2 19))) = 38"
    using last_fives [of 2 18] by (simp add: eval_nat_numeral)
  show "\<exists>self. state nineteen_core = Idle self \<and> take_pic_cnt self = held 19 \<and>
      finger_frame_interval self = fadd 38 lit_0_1"
    using sustained_run [OF idle_core_facts(2,3,1) _ s, of 0] ne l
    by (auto simp add: Idle_init_def held_0 length_fives nineteen_core_def)
qed

text \<open>
  C3 on \<open>idle_core\<close> (accumulator 0): two fingers at tick 2 rotate to the second filter;
  and on \<open>nineteen_core\<close> (accumulator above 0.1): two fingers at tick 40 do not rotate.
\<close>

theorem rotation_iff_witness:
  "ui_ready (ui idle_core) \<and> state idle_core = Idle Idle_init \<and>
   finger_frame_interval Idle_init < 2 \<and> count_fingers (stub_env 2) 0 = Inr 2 \<and>
   change_filter_time Idle_init \<le> 2 \<and> take_pic_cnt Idle_init \<le> lit_0_1 \<and>
   succeeds (update (stub_env 2) 2 0 idle_core) \<and>
   calls (reached (update (stub_env 2) 2 0 idle_core)) = [CountFingers 0, NextFilter] \<and>
   filters (reached (update (stub_env 2) 2 0 idle_core)) = next_filter two_filters \<and>
   state (reached (update (stub_env 2) 2 0 idle_core)) =
     Idle \<lparr>take_pic_cnt = 0, change_filter_time = fadd 2 lit_1_5,
           finger_frame_interval = fadd 2 lit_0_1\<rparr> \<and>
   texts (ui (reached (update (stub_env 2) 2 0 idle_core))) ''filter_name'' =
     Some ''Current filter is sepia'' \<and>
   ui_ready (ui nineteen_core) \<and>
   (\<exists>self. state nineteen_core = Idle self \<and> finger_frame_interval self < 40 \<and>
      lit_0_1 < take_pic_cnt self \<and>
      (state (reached (update (stub_env 2) 40 0 nineteen_core)) =
         Idle (self\<lparr>take_pic_cnt := sampled_cnt 2 (take_pic_cnt self),
                     finger_frame_interval := fadd 40 lit_0_1\<rparr>) \<or>
       state (reached (update (stub_env 2) 40 0 nineteen_core)) =
         Filter \<lparr>countdown_time = fadd (tick nineteen_core) 4\<rparr>)) \<and>
   succeeds (update (stub_env 2) 40 0 nineteen_core) \<and>
   calls (reached (update (stub_env 2) 40 0 nineteen_core)) =
     calls nineteen_core @ [CountFingers 0] \<and>
   filters (reached (update (stub_env 2) 40 0 nineteen_core)) = filters nineteen_core \<and>
   texts (ui (reached (update (stub_env 2) 40 0 nineteen_core))) ''filter_name'' =
     texts (ui nineteen_core) ''filter_name''"
proof -
  have a: "sampled_cnt 2 0 = 0" by (simp add: sampled_cnt_def)
  have p: "0 \<le> lit_0_1" unfolding lit_0_1_val by simp
  have n: "current_name (next_filter two_filters) = ''sepia''"
    by (simp add: current_name_def next_filter_def two_filters_def)
  have first: "ui_ready (ui idle_core) \<and> state idle_core = Idle Idle_init \<and>
   finger_frame_interval Idle_init < 2 \<and> count_fingers (stub_env 2) 0 = Inr 2 \<and>
   change_filter_time Idle_init \<le> 2 \<and> take_pic_cnt Idle_init \<le> lit_0_1 \<and>
   succeeds (update (stub_env 2) 2 0 idle_core) \<and>
   calls (reached (update (stub_env 2) 2 0 idle_core)) = [CountFingers 0, NextFilter] \<and>
   filters (reached (update (stub_env 2) 2 0 idle_core)) = next_filter two_filters \<and>
   state (reached (update (stub_env 2) 2 0 idle_core)) =
     Idle \<lparr>take_pic_cnt = 0, change_filter_time = fadd 2 lit_1_5,
           finger_frame_interval = fadd 2 lit_0_1\<rparr> \<and>
   texts (ui (reached (update (stub_env 2) 2 0 idle_core))) ''filter_name'' =
     Some ''Current filter is sepia''"
    using rotation_iff [OF idle_core_facts(2,1), of 2 "stub_env 2" 0 2] p
    by (simp add: idle_core_facts stub_env_simps Idle_init_def a n)
  from nineteen_core_facts(2) obtain self where
    s: "state nineteen_core = Idle self" and
    v: "take_pic_cnt self = held 19" and
    f: "finger_frame_interval self = fadd 38 lit_0_1"
    by blast
  have "fadd 38 lit_0_1 < 40"
    using fadd_lit_0_1_nat [of 38] by simp
  with f have due: "finger_frame_interval self < 40" by simp
  have big: "lit_0_1 < take_pic_cnt self"
    unfolding v held_19 lit_0_1_val by simp
  have second: "succeeds (update (stub_env 2) 40 0 nineteen_core) \<and>
      calls (reached (update (stub_env 2) 40 0 nineteen_core)) =
        calls nineteen_core @ [CountFingers 0] \<and>
      filters (reached (update (stub_env 2) 40 0 nineteen_core)) = filters nineteen_core \<and>
      texts (ui (reached (update (stub_env 2) 40 0 nineteen_core))) ''filter_name'' =
        texts (ui nineteen_core) ''filter_name'' \<and>
      (state (reached (update (stub_env 2) 40 0 nineteen_core)) =
         Idle (self\<lparr>take_pic_cnt := sampled_cnt 2 (take_pic_cnt self),
                     finger_frame_interval := fadd 40 lit_0_1\<rparr>) \<or>
       state (reached (update (stub_env 2) 40 0 nineteen_core)) =
         Filter \<lparr>countdown_time = fadd (tick nineteen_core) 4\<rparr>)"
    using rotation_iff [OF nineteen_core_facts(1) s due, of "stub_env 2" 0 2] big
    by (simp add: stub_env_simps)
  show ?thesis
    using first second s due big nineteen_core_facts(1) by blast
qed

text \<open>
  C3 as stated fails: after one qualifying sample the accumulator is 0.05, above 0, and
  a sample with two fingers arriving then advances the carousel (hold five fingers for
  one sample, then flash two).
\<close>

theorem rotation_with_positive_accumulator:
  "state (reached (process [(stub_env 5, 1, 0)] idle_core)) =
     Idle \<lparr>take_pic_cnt = lit_0_05, change_filter_time = 0,
           finger_frame_interval = fadd 1 lit_0_1\<rparr> \<and>
   0 < lit_0_05 \<and>
   process [(stub_env 5, 1, 0), (stub_env 2, 2, 0)] idle_core =
     Done (idle_core\<lparr>tick := 2, out_frame := Some 0,
        calls := [CountFingers 0, CountFingers 0, NextFilter],
        filters := next_filter two_filters,
        state := Idle \<lparr>take_pic_cnt = - lit_0_05, change_filter_time = fadd 2 lit_1_5,
                       finger_frame_interval = fadd 2 lit_0_1\<rparr>,
        ui := ui_run [SetProg ''bar'' lit_0_05,
                      SetText ''filter_name'' ''Current filter is sepia'',
                      SetProg ''bar'' (- lit_0_05)] (ui idle_core)\<rparr>)"
proof -
  let ?c1 = "idle_core\<lparr>tick := 1\<rparr>"
  let ?s1 = "Idle_init\<lparr>take_pic_cnt := lit_0_05, finger_frame_interval := fadd 1 lit_0_1\<rparr>"
  let ?d1 = "?c1\<lparr>out_frame := Some 0, calls := calls ?c1 @ [CountFingers 0],
      state := Idle ?s1, ui := ui_run [SetProg ''bar'' lit_0_05] (ui ?c1)\<rparr>"
  have a1: "sampled_cnt 5 0 = lit_0_05"
    by (simp add: sampled_cnt_def fadd_0_lit_0_05)
  have low: "\<not> 1 \<le> lit_0_05" by (simp add: lit_0_05_val)
  have u1: "update (stub_env 5) 1 0 ?c1 = Done ?d1"
    using Idle_sampled_plain [of ?c1 Idle_init 1 "stub_env 5" 0 5] low
    by (simp add: idle_core_facts stub_env_simps a1 Idle_init_def del: ui_run.simps)
  let ?c2 = "?d1\<lparr>tick := 2\<rparr>"
  have a2: "sampled_cnt 2 lit_0_05 = - lit_0_05"
    using lit_0_05_pos by (simp add: sampled_cnt_def fsub_lit_0_05_lit_0_1)
  have n: "current_name (next_filter two_filters) = ''sepia''"
    by (simp add: current_name_def next_filter_def two_filters_def)
  have u2: "update (stub_env 2) 2 0 ?c2 =
     Done (?c2\<lparr>out_frame := Some 0, calls := calls ?c2 @ [CountFingers 0, NextFilter],
        filters := next_filter (filters ?c2),
        state := Idle \<lparr>take_pic_cnt = - lit_0_05, change_filter_time = fadd 2 lit_1_5,
                       finger_frame_interval = fadd 2 lit_0_1\<rparr>,
        ui := ui_run [SetText ''filter_name''
                        (''Current filter is '' @ current_name (next_filter (filters ?c2))),
                      SetProg ''bar'' (- lit_0_05)] (ui ?c2)\<rparr>)"
    using Idle_sampled_rotate [of ?c2 ?s1 2 "stub_env 2" 0 2] fadd_1_lit_0_1 lit_0_05_pos
    by (simp add: idle_core_facts stub_env_simps a2 Idle_init_def ui_ready_ui_run
        del: ui_run.simps)
  have one: "state (reached (process [(stub_env 5, 1, 0)] idle_core)) =
     Idle \<lparr>take_pic_cnt = lit_0_05, change_filter_time = 0,
           finger_frame_interval = fadd 1 lit_0_1\<rparr>"
    using u1 by (simp add: idle_core_facts Idle_init_def del: ui_run.simps)
  have two: "process [(stub_env 5, 1, 0), (stub_env 2, 2, 0)] idle_core =
     Done (idle_core\<lparr>tick := 2, out_frame := Some 0,
        calls := [CountFingers 0, CountFingers 0, NextFilter],
        filters := next_filter two_filters,
        state := Idle \<lparr>take_pic_cnt = - lit_0_05, change_filter_time = fadd 2 lit_1_5,
                       finger_frame_interval = fadd 2 lit_0_1\<rparr>,
        ui := ui_run [SetProg ''bar'' lit_0_05,
                      SetText ''filter_name'' ''Current filter is sepia'',
                      SetProg ''bar'' (- lit_0_05)] (ui idle_core)\<rparr>)"
    using u1 u2
    by (simp add: idle_core_facts Idle_init_def ui_run_ui_run n del: ui_run.simps)
  show ?thesis using one two lit_0_05_pos by simp
qed

lemma sampled_core_facts:
  "state sampled_core = Idle \<lparr>take_pic_cnt = 0, change_filter_time = 0,
                               finger_frame_interval = fadd 2 lit_0_1\<rparr>"
  "ui_ready (ui sampled_core)" "calls sampled_core = [CountFingers 0]"
proof -
  have a: "sampled_cnt 0 0 = 0" by (simp add: sampled_cnt_def)
  have "update (stub_env 0) 2 0 idle_core =
     Done (idle_core\<lparr>out_frame := Some 0, calls := calls idle_core @ [CountFingers 0],
            state := Idle (Idle_init\<lparr>take_pic_cnt := sampled_cnt 0 (take_pic_cnt Idle_init),
                                finger_frame_interval := fadd 2 lit_0_1\<rparr>),
            ui := ui_run [SetProg ''bar'' (sampled_cnt 0 (take_pic_cnt Idle_init))] (ui idle_core)\<rparr>)"
    by (rule Idle_sampled_plain [OF idle_core_facts(1) _ _ idle_core_facts(2)])
       (simp_all add: Idle_init_def stub_env_simps a)
  then show "state sampled_core = Idle \<lparr>take_pic_cnt = 0, change_filter_time = 0,
                               finger_frame_interval = fadd 2 lit_0_1\<rparr>"
    "ui_ready (ui sampled_core)" "calls sampled_core = [CountFingers 0]"
    by (simp_all add: sampled_core_def Idle_init_def a idle_core_facts ui_ready_ui_run
        del: ui_run.simps)
qed

text \<open>
  C6, as amended. An Idle update calls the gesture classifier exactly when its tick is
  strictly after the sampling deadline (\<open>deadline < t\<close>), and then once; if the classifier
  answers, the deadline of the object that ran the update is re-armed to \<open>t + 0.1\<close>. At
  any other tick, \<open>t = deadline\<close> included, the update only publishes the frame: no
  collaborator is called and no counter changes.
\<close>

theorem sampling_gate:
  assumes "ui_ready (ui c)" and "state c = Idle self"
  shows "if finger_frame_interval self < t
         then (calls (reached (update ev t frame c)) = calls c @ [CountFingers frame] \<or>
               calls (reached (update ev t frame c)) = calls c @ [CountFingers frame, NextFilter]) \<and>
              (case count_fingers ev frame of
                 Inl e \<Rightarrow> update ev t frame c =
                   Raised e (c\<lparr>out_frame := Some frame, calls := calls c @ [CountFingers frame]\<rparr>)
               | Inr k \<Rightarrow>
                   (\<exists>self'. state (reached (update ev t frame c)) = Idle self' \<and>
                      finger_frame_interval self' = fadd t lit_0_1) \<or>
                   (\<exists>fs. state (reached (update ev t frame c)) = Filter fs))
         else update ev t frame c = Done (c\<lparr>out_frame := Some frame\<rparr>)"
  using assms(1)
proof (cases rule: update_cases [where ev = ev and t = t and frame = frame])
  case (waiting self')
  then show ?thesis using assms by simp
next
  case (classifier_fails self' e)
  then show ?thesis using assms by simp
next
  case (triggering self' k)
  then show ?thesis using assms by (simp del: ui_run.simps)
next
  case (rotating self' k)
  then show ?thesis using assms by (simp del: ui_run.simps)
next
  case (sampling self' k)
  then show ?thesis using assms by (simp del: ui_run.simps)
qed (use assms in simp_all)

text \<open>C6 on \<open>idle_core\<close> (sampled at tick 2) and on \<open>sampled_core\<close> (not sampled at tick 2).\<close>

theorem sampling_gate_witness:
  "ui_ready (ui idle_core) \<and> state idle_core = Idle Idle_init \<and>
   finger_frame_interval Idle_init < 2 \<and>
   calls (reached (update (stub_env 0) 2 0 idle_core)) = [CountFingers 0] \<and>
   (\<exists>self'. state (reached (update (stub_env 0) 2 0 idle_core)) = Idle self' \<and>
      finger_frame_interval self' = fadd 2 lit_0_1) \<and>
   ui_ready (ui sampled_core) \<and>
   state sampled_core = Idle \<lparr>take_pic_cnt = 0, change_filter_time = 0,
                               finger_frame_interval = fadd 2 lit_0_1\<rparr> \<and>
   \<not> fadd 2 lit_0_1 < 2 \<and>
   update (stub_env 5) 2 1 sampled_core = Done (sampled_core\<lparr>out_frame := Some 1\<rparr>)"
proof -
  have g: "\<not> fadd 2 lit_0_1 < 2"
  proof -
    have "rnd 2 \<le> rnd (2 + lit_0_1)" by (rule rnd_mono) (simp add: lit_0_1_val)
    moreover have "rnd 2 = 2" using rnd_of_nat [of 2] by simp
    ultimately show ?thesis by (simp add: fadd_def)
  qed
  show ?thesis
    using sampling_gate [OF idle_core_facts(2,1), of 2 "stub_env 0" 0]
      sampling_gate [OF sampled_core_facts(2,1), of 2 "stub_env 5" 1] g
      sampled_core_facts [unfolded sampled_core_def]
    by (simp add: idle_core_facts sampled_core_facts stub_env_simps Idle_init_def)
qed

text \<open>
  C6 as stated fails: an update whose tick equals the sampling deadline (so the deadline
  has expired in the sense "tick \<open>\<ge>\<close> deadline") calls no classifier.
\<close>

theorem no_sample_at_deadline:
  "state sampled_core = Idle \<lparr>take_pic_cnt = 0, change_filter_time = 0,
                               finger_frame_interval = fadd 2 lit_0_1\<rparr> \<and>
   finger_frame_interval \<lparr>take_pic_cnt = 0, change_filter_time = 0,
                          finger_frame_interval = fadd 2 lit_0_1\<rparr> \<le> fadd 2 lit_0_1 \<and>
   calls (reached (update (stub_env 5) (fadd 2 lit_0_1) 1 sampled_core)) = calls sampled_core \<and>
   state (reached (update (stub_env 5) (fadd 2 lit_0_1) 1 sampled_core)) = state sampled_core"
  using Idle_not_sampled [OF sampled_core_facts(1), of "fadd 2 lit_0_1" "stub_env 5" 1]
  by (simp add: sampled_core_facts)


section \<open>The update that starts the countdown\<close>

text \<open>
  C10. When a sampled Idle update takes the accumulator to at least 1.0, the update goes
  on after the transition: with the controller already in the new Filter state, whose
  entry hook has hidden the progress bar, it evaluates the rotation check (which does
  nothing, the accumulator being positive) and sends the progress command for "bar"
  with the final accumulator. The commands received by the UI are, in this order, the
  three of \<^verbatim>\<open>Filter.enter\<close> and then that progress command.
\<close>

theorem progress_after_transition:
  assumes "ui_ready (ui c)" and "state c = Idle self" and "finger_frame_interval self < t"
    and "count_fingers ev frame = Inr k" and "1 \<le> sampled_cnt k (take_pic_cnt self)"
  shows "succeeds (update ev t frame c) \<and>
         state (reached (update ev t frame c)) = Filter \<lparr>countdown_time = fadd (tick c) 4\<rparr> \<and>
         state_id (reached (update ev t frame c)) = Suc (state_id c) \<and>
         cmds (ui (reached (update ev t frame c))) = cmds (ui c) @
           [Hide [''help_1'', ''help_2'', ''filter_name'', ''bar''],
            SetText ''countdown'' ''3'', Show [''countdown''],
            SetProg ''bar'' (sampled_cnt k (take_pic_cnt self))] \<and>
         \<not> shown (ui (reached (update ev t frame c))) ''bar'' \<and>
         calls (reached (update ev t frame c)) = calls c @ [CountFingers frame] \<and>
         filters (reached (update ev t frame c)) = filters c"
  unfolding Idle_sampled_trigger [OF assms(2,3,4,1,5)]
  using ui_readyD [OF assms(1)]
  by (simp add: cmds_ui_run ui_after del: ui_run.simps) (simp add: ui_after)

text \<open>C10 on the controller after nineteen qualifying samples, at the twentieth.\<close>

theorem progress_after_transition_witness:
  "\<exists>self. ui_ready (ui (nineteen_core\<lparr>tick := 40\<rparr>)) \<and>
     state (nineteen_core\<lparr>tick := 40\<rparr>) = Idle self \<and> finger_frame_interval self < 40 \<and>
     count_fingers (stub_env 5) 0 = Inr 5 \<and> 1 \<le> sampled_cnt 5 (take_pic_cnt self) \<and>
     succeeds (update (stub_env 5) 40 0 (nineteen_core\<lparr>tick := 40\<rparr>)) \<and>
     state (reached (update (stub_env 5) 40 0 (nineteen_core\<lparr>tick := 40\<rparr>))) =
       Filter \<lparr>countdown_time = 44\<rparr> \<and>
     cmds (ui (reached (update (stub_env 5) 40 0 (nineteen_core\<lparr>tick := 40\<rparr>)))) =
       cmds (ui nineteen_core) @
         [Hide [''help_1'', ''help_2'', ''filter_name'', ''bar''],
          SetText ''countdown'' ''3'', Show [''countdown''], SetProg ''bar'' (held 20)] \<and>
     \<not> shown (ui (reached (update (stub_env 5) 40 0 (nineteen_core\<lparr>tick := 40\<rparr>)))) ''bar''"
proof -
  obtain self where st: "state nineteen_core = Idle self" and a: "take_pic_cnt self = held 19"
    and f: "finger_frame_interval self = fadd 38 lit_0_1"
    using nineteen_core_facts(2) by blast
  have "fadd 38 lit_0_1 \<le> 39" using fadd_lit_0_1_nat [of 38] by simp
  then have fired: "finger_frame_interval self < 40" using f by simp
  have cnt: "sampled_cnt 5 (take_pic_cnt self) = held 20"
    using held_Suc [of 19] by (simp add: sampled_cnt_def a)
  have high: "1 \<le> sampled_cnt 5 (take_pic_cnt self)"
    using held_20_reaches_1 by (simp add: cnt)
  have ready: "ui_ready (ui (nineteen_core\<lparr>tick := 40\<rparr>))"
    using nineteen_core_facts(1) by simp
  have st': "state (nineteen_core\<lparr>tick := 40\<rparr>) = Idle self" using st by simp
  have k: "count_fingers (stub_env 5) 0 = Inr 5" by (simp add: stub_env_simps)
  show ?thesis
    using progress_after_transition [OF ready st' fired k high] ready st' fired k high
    by (intro exI [of _ self]) (simp add: cnt fadd_40_4)
qed


section \<open>Filter and ShowPic\<close>

lemma py_int_pos: "0 < x \<Longrightarrow> py_int x = \<lfloor>x\<rfloor>"
  by (simp add: py_int_def)

lemma counting_run:
  assumes "ui_ready (ui c)" and "\<not> stopped c" and "state c = Filter self"
    and "list_all (\<lambda>(ev, t, frame). t < countdown_time self) pre"
  shows "\<exists>c'. process (pre @ rest) c = process rest c' \<and> ui_ready (ui c') \<and> \<not> stopped c' \<and>
           state c' = Filter self \<and> calls c' = calls c \<and> filters c' = filters c \<and>
           filtered_frame c' = filtered_frame c \<and> state_id c' = state_id c"
  using assms
proof (induction pre arbitrary: c)
  case Nil
  then show ?case by (intro exI [of _ c]) simp
next
  case (Cons x pre)
  obtain ev t frame where x: "x = (ev, t, frame)" by (cases x) auto
  let ?c = "c\<lparr>tick := t\<rparr>"
  let ?d = "?c\<lparr>out_frame := Some frame,
      ui := ui_run [SetText ''countdown'' (str_int (py_int (fsub (countdown_time self) t)))] (ui ?c)\<rparr>"
  have early: "t < countdown_time self" using Cons.prems(4) by (simp add: x)
  have ready: "ui_ready (ui ?c)" and st: "state ?c = Filter self" using Cons.prems by simp_all
  have step: "update ev t frame ?c = Done ?d" by (rule Filter_counting [OF st early ready])
  have p: "process ((x # pre) @ rest) c = process (pre @ rest) ?d"
    using Cons.prems(2) step by (simp add: x)
  have "\<exists>c'. process (pre @ rest) ?d = process rest c' \<and> ui_ready (ui c') \<and> \<not> stopped c' \<and>
           state c' = Filter self \<and> calls c' = calls ?d \<and> filters c' = filters ?d \<and>
           filtered_frame c' = filtered_frame ?d \<and> state_id c' = state_id ?d"
  proof (rule Cons.IH)
    show "ui_ready (ui ?d)" using ready by (simp add: ui_ready_ui_run del: ui_run.simps)
    show "\<not> stopped ?d" using Cons.prems(2) by simp
    show "state ?d = Filter self" using st by simp
    show "list_all (\<lambda>(ev, t, frame). t < countdown_time self) pre" using Cons.prems(4) by simp
  qed
  then show ?case unfolding p by simp
qed

text \<open>
  C4. Entering Filter at tick \<open>T\<close> arms the countdown at \<open>T + 4\<close> and shows the label "3".
  An update at a tick \<open>t\<close> before the deadline publishes the incoming frame, sets the label
  to \<open>\<lfloor>deadline - t\<rfloor>\<close> and calls no collaborator. An update at or after the deadline
  hides the countdown, calls the masker and the current filter once each on that update's
  frame (the filter on the masked frame), stores the result as the filtered frame and ends
  in ShowPic. Over a run of updates before the deadline followed by one at or after it,
  the pipeline has run exactly once, on the last frame.
\<close>

theorem filter_countdown_then_capture:
  assumes "ui_ready (ui c)"
  shows "succeeds (set_state (Filter Filter_init) c) \<and>
         state (reached (set_state (Filter Filter_init) c)) =
           Filter \<lparr>countdown_time = fadd (tick c) 4\<rparr> \<and>
         texts (ui (reached (set_state (Filter Filter_init) c))) ''countdown'' = Some ''3'' \<and>
         shown (ui (reached (set_state (Filter Filter_init) c))) ''countdown'' \<and>
         (state c = Filter self \<and> t < countdown_time self \<longrightarrow>
            succeeds (update ev t frame c) \<and>
            out_frame (reached (update ev t frame c)) = Some frame \<and>
            texts (ui (reached (update ev t frame c))) ''countdown'' =
              Some (str_int \<lfloor>fsub (countdown_time self) t\<rfloor>) \<and>
            state (reached (update ev t frame c)) = state c \<and>
            calls (reached (update ev t frame c)) = calls c \<and>
            filtered_frame (reached (update ev t frame c)) = filtered_frame c) \<and>
         (state c = Filter self \<and> \<not> t < countdown_time self \<and> fg_apply ev frame = Inr fg_mask \<and>
          current_filter ev (filters c) (bitwise_and ev frame frame fg_mask) = Inr r \<longrightarrow>
            succeeds (update ev t frame c) \<and>
            state (reached (update ev t frame c)) =
              ShowPic \<lparr>show_image_time = fadd (tick c) 10\<rparr> \<and>
            filtered_frame (reached (update ev t frame c)) = Some r \<and>
            calls (reached (update ev t frame c)) = calls c @
              [FgApply frame, CurrentFilter (filters c) (bitwise_and ev frame frame fg_mask)] \<and>
            \<not> shown (ui (reached (update ev t frame c))) ''countdown'') \<and>
         (state c = Filter self \<and> \<not> stopped c \<and>
          list_all (\<lambda>(ev, t, frame). t < countdown_time self) pre \<and>
          \<not> t < countdown_time self \<and> fg_apply ev frame = Inr fg_mask \<and>
          current_filter ev (filters c) (bitwise_and ev frame frame fg_mask) = Inr r \<longrightarrow>
            succeeds (process (pre @ [(ev, t, frame)]) c) \<and>
            state (reached (process (pre @ [(ev, t, frame)]) c)) =
              ShowPic \<lparr>show_image_time = fadd t 10\<rparr> \<and>
            filtered_frame (reached (process (pre @ [(ev, t, frame)]) c)) = Some r \<and>
            calls (reached (process (pre @ [(ev, t, frame)]) c)) = calls c @
              [FgApply frame, CurrentFilter (filters c) (bitwise_and ev frame frame fg_mask)])"
proof -
  note d = ui_readyD [OF assms]
  have entry: "succeeds (set_state (Filter Filter_init) c) \<and>
         state (reached (set_state (Filter Filter_init) c)) =
           Filter \<lparr>countdown_time = fadd (tick c) 4\<rparr> \<and>
         texts (ui (reached (set_state (Filter Filter_init) c))) ''countdown'' = Some ''3'' \<and>
         shown (ui (reached (set_state (Filter Filter_init) c))) ''countdown''"
    unfolding set_state_Filter [OF assms] using d by (simp add: ui_after)
  have counting: "succeeds (update ev t frame c) \<and>
            out_frame (reached (update ev t frame c)) = Some frame \<and>
            texts (ui (reached (update ev t frame c))) ''countdown'' =
              Some (str_int \<lfloor>fsub (countdown_time self) t\<rfloor>) \<and>
            state (reached (update ev t frame c)) = state c \<and>
            calls (reached (update ev t frame c)) = calls c \<and>
            filtered_frame (reached (update ev t frame c)) = filtered_frame c"
    if "state c = Filter self \<and> t < countdown_time self"
  proof -
    have st: "state c = Filter self" and early: "t < countdown_time self" using that by simp_all
    have "0 < fsub (countdown_time self) t" using early by (simp add: fsub_pos_iff)
    then have "py_int (fsub (countdown_time self) t) = \<lfloor>fsub (countdown_time self) t\<rfloor>"
      by (rule py_int_pos)
    then show ?thesis
      unfolding Filter_counting [OF st early assms] using d by (simp add: ui_after)
  qed
  have expiring: "succeeds (update ev t frame c) \<and>
            state (reached (update ev t frame c)) =
              ShowPic \<lparr>show_image_time = fadd (tick c) 10\<rparr> \<and>
            filtered_frame (reached (update ev t frame c)) = Some r \<and>
            calls (reached (update ev t frame c)) = calls c @
              [FgApply frame, CurrentFilter (filters c) (bitwise_and ev frame frame fg_mask)] \<and>
            \<not> shown (ui (reached (update ev t frame c))) ''countdown''"
    if "state c = Filter self \<and> \<not> t < countdown_time self \<and> fg_apply ev frame = Inr fg_mask \<and>
          current_filter ev (filters c) (bitwise_and ev frame frame fg_mask) = Inr r"
  proof -
    have st: "state c = Filter self" and late: "\<not> t < countdown_time self"
      and m: "fg_apply ev frame = Inr fg_mask"
      and f: "current_filter ev (filters c) (bitwise_and ev frame frame fg_mask) = Inr r"
      using that by simp_all
    show ?thesis
      unfolding Filter_expired [OF st late assms m f] using d by (simp add: ui_after)
  qed
  have run: "succeeds (process (pre @ [(ev, t, frame)]) c) \<and>
            state (reached (process (pre @ [(ev, t, frame)]) c)) =
              ShowPic \<lparr>show_image_time = fadd t 10\<rparr> \<and>
            filtered_frame (reached (process (pre @ [(ev, t, frame)]) c)) = Some r \<and>
            calls (reached (process (pre @ [(ev, t, frame)]) c)) = calls c @
              [FgApply frame, CurrentFilter (filters c) (bitwise_and ev frame frame fg_mask)]"
    if "state c = Filter self \<and> \<not> stopped c \<and>
          list_all (\<lambda>(ev, t, frame). t < countdown_time self) pre \<and>
          \<not> t < countdown_time self \<and> fg_apply ev frame = Inr fg_mask \<and>
          current_filter ev (filters c) (bitwise_and ev frame frame fg_mask) = Inr r"
  proof -
    have st: "state c = Filter self" and go: "\<not> stopped c"
      and pre: "list_all (\<lambda>(ev, t, frame). t < countdown_time self) pre"
      and late: "\<not> t < countdown_time self" and m: "fg_apply ev frame = Inr fg_mask"
      and f: "current_filter ev (filters c) (bitwise_and ev frame frame fg_mask) = Inr r"
      using that by simp_all
    obtain c' where p: "process (pre @ [(ev, t, frame)]) c = process [(ev, t, frame)] c'"
      and ready': "ui_ready (ui c')" and go': "\<not> stopped c'" and st': "state c' = Filter self"
      and same: "calls c' = calls c" "filters c' = filters c"
      using counting_run [OF assms go st pre, of "[(ev, t, frame)]"] by blast
    let ?c = "c'\<lparr>tick := t\<rparr>"
    have "update ev t frame ?c =
       Done (?c\<lparr>filtered_frame := Some r,
            calls := calls ?c @
              [FgApply frame, CurrentFilter (filters ?c) (bitwise_and ev frame frame fg_mask)],
            state := ShowPic \<lparr>show_image_time = fadd (tick ?c) 10\<rparr>,
            state_id := Suc (state_id ?c),
            ui := ui_run [Hide [''countdown''], Hide [''countdown'']] (ui ?c)\<rparr>)"
      by (rule Filter_expired) (use ready' st' late m f same in simp_all)
    then show ?thesis unfolding p using go' same by (simp del: ui_run.simps)
  qed
  show ?thesis using entry counting expiring run by blast
qed

text \<open>C4 on \<open>filter_core\<close> (deadline 4): updates at ticks 1 and 3, then at tick 5.\<close>

theorem filter_countdown_then_capture_witness:
  "ui_ready (ui filter_core) \<and> state filter_core = Filter \<lparr>countdown_time = 4\<rparr> \<and>
   \<not> stopped filter_core \<and>
   state (reached (set_state (Filter Filter_init) idle_core)) = Filter \<lparr>countdown_time = 4\<rparr> \<and>
   texts (ui (reached (set_state (Filter Filter_init) idle_core))) ''countdown'' = Some ''3'' \<and>
   (1::rat) < 4 \<and>
   out_frame (reached (update (stub_env 0) 1 7 filter_core)) = Some 7 \<and>
   texts (ui (reached (update (stub_env 0) 1 7 filter_core))) ''countdown'' = Some ''3'' \<and>
   calls (reached (update (stub_env 0) 1 7 filter_core)) = [] \<and>
   \<not> (5::rat) < 4 \<and> fg_apply (stub_env 0) 9 = Inr 109 \<and>
   current_filter (stub_env 0) two_filters (bitwise_and (stub_env 0) 9 9 109) = Inr 118 \<and>
   state (reached (update (stub_env 0) 5 9 filter_core)) = ShowPic \<lparr>show_image_time = 10\<rparr> \<and>
   filtered_frame (reached (update (stub_env 0) 5 9 filter_core)) = Some 118 \<and>
   calls (reached (update (stub_env 0) 5 9 filter_core)) =
     [FgApply 9, CurrentFilter two_filters 118] \<and>
   list_all (\<lambda>(ev, t, frame). t < 4) [(stub_env 0, 1 :: pyfloat, 7), (stub_env 0, 3, 8)] \<and>
   succeeds (process [(stub_env 0, 1, 7), (stub_env 0, 3, 8), (stub_env 0, 5, 9)] filter_core) \<and>
   state (reached (process [(stub_env 0, 1, 7), (stub_env 0, 3, 8), (stub_env 0, 5, 9)]
     filter_core)) = ShowPic \<lparr>show_image_time = fadd 5 10\<rparr> \<and>
   filtered_frame (reached (process [(stub_env 0, 1, 7), (stub_env 0, 3, 8), (stub_env 0, 5, 9)]
     filter_core)) = Some 118 \<and>
   calls (reached (process [(stub_env 0, 1, 7), (stub_env 0, 3, 8), (stub_env 0, 5, 9)]
     filter_core)) = [FgApply 9, CurrentFilter two_filters 118]"
proof -
  have l: "str_int \<lfloor>fsub 4 1\<rfloor> = ''3''" by code_simp
  have i: "index two_filters = 0" by (simp add: two_filters_def)
  show ?thesis
    using filter_countdown_then_capture [OF idle_core_facts(2)]
      filter_countdown_then_capture [OF filter_core_facts(2),
        of "\<lparr>countdown_time = 4\<rparr>" 1 "stub_env 0" 7]
      filter_countdown_then_capture [OF filter_core_facts(2),
        of "\<lparr>countdown_time = 4\<rparr>" 5 "stub_env 0" 9 109 118
           "[(stub_env 0, 1, 7), (stub_env 0, 3, 8)]"]
    by (simp add: filter_core_facts idle_core_facts stub_env_simps l i fadd_0_4 fadd_0_10)
qed

text \<open>
  C5, as amended. Entering ShowPic at tick \<open>T\<close> hides the countdown and arms the deadline
  at \<open>T + 10\<close>. Every update publishes the filtered frame, never the incoming one. The
  update moves to a new Idle state exactly when its tick is strictly after the deadline
  (\<open>deadline < t\<close>); at \<open>t = deadline\<close> the state stays ShowPic.
\<close>

theorem showpic_until_after_deadline:
  assumes "ui_ready (ui c)"
  shows "succeeds (set_state (ShowPic ShowPic_init) c) \<and>
         state (reached (set_state (ShowPic ShowPic_init) c)) =
           ShowPic \<lparr>show_image_time = fadd (tick c) 10\<rparr> \<and>
         cmds (ui (reached (set_state (ShowPic ShowPic_init) c))) =
           cmds (ui c) @ [Hide [''countdown'']] \<and>
         \<not> shown (ui (reached (set_state (ShowPic ShowPic_init) c))) ''countdown'' \<and>
         (state c = ShowPic self \<longrightarrow>
            succeeds (update ev t frame c) \<and>
            out_frame (reached (update ev t frame c)) = filtered_frame c \<and>
            (if show_image_time self < t
             then state (reached (update ev t frame c)) = Idle Idle_init \<and>
                  state_id (reached (update ev t frame c)) = Suc (state_id c)
             else state (reached (update ev t frame c)) = state c \<and>
                  state_id (reached (update ev t frame c)) = state_id c))"
proof -
  note d = ui_readyD [OF assms]
  have entry: "succeeds (set_state (ShowPic ShowPic_init) c) \<and>
         state (reached (set_state (ShowPic ShowPic_init) c)) =
           ShowPic \<lparr>show_image_time = fadd (tick c) 10\<rparr> \<and>
         cmds (ui (reached (set_state (ShowPic ShowPic_init) c))) =
           cmds (ui c) @ [Hide [''countdown'']] \<and>
         \<not> shown (ui (reached (set_state (ShowPic ShowPic_init) c))) ''countdown''"
    unfolding set_state_ShowPic [OF assms] using d
    by (simp add: cmds_ui_run ui_after del: ui_run.simps) (simp add: ui_after)
  have upd: "succeeds (update ev t frame c) \<and>
            out_frame (reached (update ev t frame c)) = filtered_frame c \<and>
            (if show_image_time self < t
             then state (reached (update ev t frame c)) = Idle Idle_init \<and>
                  state_id (reached (update ev t frame c)) = Suc (state_id c)
             else state (reached (update ev t frame c)) = state c \<and>
                  state_id (reached (update ev t frame c)) = state_id c)"
    if st: "state c = ShowPic self"
  proof (cases "show_image_time self < t")
    case True
    show ?thesis unfolding ShowPic_over [OF st True assms] using True
      by (simp del: ui_run.simps)
  next
    case False
    show ?thesis unfolding ShowPic_showing [OF st False] using False by simp
  qed
  show ?thesis using entry upd by blast
qed

text \<open>C5 on \<open>showpic_core\<close> (deadline 10): updates at ticks 9.99 and 10.01.\<close>

theorem showpic_until_after_deadline_witness:
  "ui_ready (ui showpic_core) \<and> state showpic_core = ShowPic \<lparr>show_image_time = 10\<rparr> \<and>
   state (reached (set_state (ShowPic ShowPic_init) idle_core)) =
     ShowPic \<lparr>show_image_time = 10\<rparr> \<and>
   cmds (ui (reached (set_state (ShowPic ShowPic_init) idle_core))) =
     cmds (ui idle_core) @ [Hide [''countdown'']] \<and>
   out_frame (reached (update (stub_env 0) (999 / 100) 3 showpic_core)) =
     filtered_frame showpic_core \<and>
   state (reached (update (stub_env 0) (999 / 100) 3 showpic_core)) =
     ShowPic \<lparr>show_image_time = 10\<rparr> \<and>
   state (reached (update (stub_env 0) (1001 / 100) 3 showpic_core)) = Idle Idle_init"
  using showpic_until_after_deadline [OF idle_core_facts(2)]
    showpic_until_after_deadline [OF showpic_core_facts(2),
      of "\<lparr>show_image_time = 10\<rparr>" "stub_env 0" "999 / 100" 3]
    showpic_until_after_deadline [OF showpic_core_facts(2),
      of "\<lparr>show_image_time = 10\<rparr>" "stub_env 0" "1001 / 100" 3]
  by (simp add: showpic_core_facts idle_core_facts fadd_0_10)

text \<open>
  C5 as stated fails: at tick 10 the deadline 10 has expired in the sense "tick \<open>\<ge>\<close>
  deadline", and the state is still ShowPic.
\<close>

theorem showpic_stays_at_deadline:
  "state showpic_core = ShowPic \<lparr>show_image_time = 10\<rparr> \<and>
   show_image_time \<lparr>show_image_time = 10\<rparr> \<le> 10 \<and>
   state (reached (update (stub_env 0) 10 3 showpic_core)) = ShowPic \<lparr>show_image_time = 10\<rparr>"
  using ShowPic_showing [OF showpic_core_facts(1), of 10 "stub_env 0" 3]
  by (simp add: showpic_core_facts)


section \<open>Failures and transitions\<close>

text \<open>
  C7, as amended. Nothing catches an exception of a collaborator: it leaves
  \<^verbatim>\<open>update\<close> and \<^verbatim>\<open>process\<close>, so the loop ends and the frames after the failing
  one are never consumed. The effects before the failing call stay (Idle: the frame is
  published; Filter: the countdown is hidden), those after it are skipped, and the active
  state object and its counters are as they were.
\<close>

theorem collaborator_failure_ends_loop:
  assumes "ui_ready (ui c)" and "\<not> stopped c"
  shows "(state c = Idle self \<and> finger_frame_interval self < t \<and>
          count_fingers ev frame = Inl e \<longrightarrow>
            process ((ev, t, frame) # rest) c =
              Raised e (c\<lparr>tick := t, out_frame := Some frame,
                          calls := calls c @ [CountFingers frame]\<rparr>)) \<and>
         (state c = Filter fs \<and> \<not> t < countdown_time fs \<and> fg_apply ev frame = Inl e \<longrightarrow>
            process ((ev, t, frame) # rest) c =
              Raised e (c\<lparr>tick := t, calls := calls c @ [FgApply frame],
                          ui := ui_run [Hide [''countdown'']] (ui c)\<rparr>)) \<and>
         (state c = Filter fs \<and> \<not> t < countdown_time fs \<and> fg_apply ev frame = Inr fg_mask \<and>
          current_filter ev (filters c) (bitwise_and ev frame frame fg_mask) = Inl e \<longrightarrow>
            process ((ev, t, frame) # rest) c =
              Raised e (c\<lparr>tick := t,
                          calls := calls c @ [FgApply frame,
                            CurrentFilter (filters c) (bitwise_and ev frame frame fg_mask)],
                          ui := ui_run [Hide [''countdown'']] (ui c)\<rparr>))"
proof (intro conjI impI)
  let ?c = "c\<lparr>tick := t\<rparr>"
  have ready: "ui_ready (ui ?c)" using assms(1) by simp
  {
    assume a: "state c = Idle self \<and> finger_frame_interval self < t \<and>
          count_fingers ev frame = Inl e"
    then have "state ?c = Idle self" "finger_frame_interval self < t"
      "count_fingers ev frame = Inl e" by simp_all
    then have "update ev t frame ?c =
        Raised e (?c\<lparr>out_frame := Some frame, calls := calls ?c @ [CountFingers frame]\<rparr>)"
      by (rule Idle_classifier_fails)
    then show "process ((ev, t, frame) # rest) c =
              Raised e (c\<lparr>tick := t, out_frame := Some frame,
                          calls := calls c @ [CountFingers frame]\<rparr>)"
      using assms(2) by simp
  }
  {
    assume a: "state c = Filter fs \<and> \<not> t < countdown_time fs \<and> fg_apply ev frame = Inl e"
    then have "state ?c = Filter fs" "\<not> t < countdown_time fs" "fg_apply ev frame = Inl e"
      by simp_all
    then have "update ev t frame ?c =
        Raised e (?c\<lparr>calls := calls ?c @ [FgApply frame],
                     ui := ui_run [Hide [''countdown'']] (ui ?c)\<rparr>)"
      using ready Filter_masker_fails [of ?c fs t ev frame e] by blast
    then show "process ((ev, t, frame) # rest) c =
              Raised e (c\<lparr>tick := t, calls := calls c @ [FgApply frame],
                          ui := ui_run [Hide [''countdown'']] (ui c)\<rparr>)"
      using assms(2) by (simp del: ui_run.simps)
  }
  {
    assume a: "state c = Filter fs \<and> \<not> t < countdown_time fs \<and> fg_apply ev frame = Inr fg_mask \<and>
          current_filter ev (filters c) (bitwise_and ev frame frame fg_mask) = Inl e"
    then have "state ?c = Filter fs" "\<not> t < countdown_time fs" "fg_apply ev frame = Inr fg_mask"
      "current_filter ev (filters ?c) (bitwise_and ev frame frame fg_mask) = Inl e"
      by simp_all
    then have "update ev t frame ?c =
        Raised e (?c\<lparr>calls := calls ?c @
                    [FgApply frame, CurrentFilter (filters ?c) (bitwise_and ev frame frame fg_mask)],
                 ui := ui_run [Hide [''countdown'']] (ui ?c)\<rparr>)"
      using ready Filter_transform_fails [of ?c fs t ev frame fg_mask e] by blast
    then show "process ((ev, t, frame) # rest) c =
              Raised e (c\<lparr>tick := t,
                          calls := calls c @ [FgApply frame,
                            CurrentFilter (filters c) (bitwise_and ev frame frame fg_mask)],
                          ui := ui_run [Hide [''countdown'']] (ui c)\<rparr>)"
      using assms(2) by (simp del: ui_run.simps)
  }
qed

text \<open>C7 on \<open>idle_core\<close> (classifier raises) and on \<open>filter_core\<close> (masker raises).\<close>

theorem collaborator_failure_ends_loop_witness:
  "ui_ready (ui idle_core) \<and> \<not> stopped idle_core \<and> state idle_core = Idle Idle_init \<and>
   finger_frame_interval Idle_init < 2 \<and> count_fingers broken_env 0 = Inl ExternalError \<and>
   process [(broken_env, 2, 0), (stub_env 5, 4, 1)] idle_core =
     Raised ExternalError (idle_core\<lparr>tick := 2, out_frame := Some 0, calls := [CountFingers 0]\<rparr>) \<and>
   ui_ready (ui filter_core) \<and> \<not> stopped filter_core \<and>
   state filter_core = Filter \<lparr>countdown_time = 4\<rparr> \<and> \<not> (5::rat) < 4 \<and>
   fg_apply broken_env 9 = Inl ExternalError \<and>
   process [(broken_env, 5, 9), (stub_env 5, 6, 1)] filter_core =
     Raised ExternalError (filter_core\<lparr>tick := 5, calls := [FgApply 9],
       ui := ui_run [Hide [''countdown'']] (ui filter_core)\<rparr>)"
  using collaborator_failure_ends_loop [OF idle_core_facts(2,3),
      where self = Idle_init and t = 2 and ev = broken_env and frame = 0
        and e = ExternalError and rest = "[(stub_env 5, 4, 1)]"]
    collaborator_failure_ends_loop [OF filter_core_facts(2,3),
      where fs = "\<lparr>countdown_time = 4\<rparr>" and t = 5 and ev = broken_env and frame = 9
        and e = ExternalError and rest = "[(stub_env 5, 6, 1)]"]
  by (simp add: idle_core_facts filter_core_facts broken_env_simps Idle_init_def
      del: ui_run.simps process.simps)

text \<open>
  C7 as stated fails: after a classifier failure on the first of two frames the loop has
  ended with the exception; the second frame was never classified nor published.
\<close>

theorem classifier_failure_is_fatal:
  "raises ExternalError (process [(broken_env, 2, 0), (stub_env 5, 4, 1)] idle_core) \<and>
   calls (reached (process [(broken_env, 2, 0), (stub_env 5, 4, 1)] idle_core)) =
     [CountFingers 0] \<and>
   out_frame (reached (process [(broken_env, 2, 0), (stub_env 5, 4, 1)] idle_core)) = Some 0"
proof -
  have "update broken_env 2 0 (idle_core\<lparr>tick := 2\<rparr>) =
      Raised ExternalError ((idle_core\<lparr>tick := 2\<rparr>)\<lparr>out_frame := Some 0,
        calls := calls (idle_core\<lparr>tick := 2\<rparr>) @ [CountFingers 0]\<rparr>)"
    by (rule Idle_classifier_fails [where self = Idle_init])
       (simp_all add: idle_core_facts broken_env_simps Idle_init_def)
  then show ?thesis by (simp add: idle_core_facts)
qed



end
